theory Spec2Isabelle
  imports Main "HOL-Library.AList"
begin

section \<open>AlertSockets: the notification relay of \<^verbatim>\<open>src/index.ts\<close>\<close>

text \<open>
  The class \<^verbatim>\<open>NotificationServer\<close> keeps two maps, \<^verbatim>\<open>userChannels\<close> (account id to a
  \<^verbatim>\<open>Set\<close> of client objects) and \<^verbatim>\<open>apiKeys\<close> (account id to key), and reacts to
  socket events, to two HTTP routes and to a 30 second timer. The handlers run to
  completion one after the other on the event loop of Node, so the embedding is a
  state record and one function per method, each taking the state and returning the
  new one.

  Client objects are mutable and are compared by identity, and the same object can sit
  in several sets. They live in an explicit store: a reference is a natural number,
  the store maps a reference to the fields of the object.
\<close>

subsection \<open>JSON values and the zod schemas\<close>

text \<open>
  The value of \<^verbatim>\<open>JSON.parse\<close> or of \<^verbatim>\<open>req.body\<close>. No schema of the program accepts a
  number anywhere, so the IEEE double of a JSON number is kept abstract. The entries of
  an object are in insertion order; \<^verbatim>\<open>JSON.parse\<close> keeps one entry per key.
\<close>

typedecl number

datatype json =
    JNull
  | JBool bool
  | JNum number
  | JStr string
  | JArr "json list"
  | JObj "(string \<times> json) list"

text \<open>A failed \<^verbatim>\<open>Schema.parse\<close> throws a \<^verbatim>\<open>ZodError\<close>; its list of issues is not modelled.\<close>

datatype zod_error = ZodError

text \<open>\<^verbatim>\<open>z.string()\<close> on the value of a property; \<open>None\<close> is a missing property.\<close>

fun z_string :: "json option \<Rightarrow> string option" where
  "z_string (Some (JStr s)) = Some s"
| "z_string _ = None"

text \<open>\<^verbatim>\<open>z.string().optional()\<close>: a missing property is accepted and stays undefined.\<close>

fun z_string_optional :: "json option \<Rightarrow> string option option" where
  "z_string_optional None = Some None"
| "z_string_optional (Some (JStr s)) = Some (Some s)"
| "z_string_optional _ = None"

text \<open>\<^verbatim>\<open>z.literal(l)\<close>.\<close>

definition z_literal :: "string \<Rightarrow> json option \<Rightarrow> string option" where
  "z_literal l v = (case z_string v of
       None \<Rightarrow> None
     | Some s \<Rightarrow> if s = l then Some s else None)"

text \<open>\<^verbatim>\<open>z.array(z.string())\<close>.\<close>

fun z_strings :: "json list \<Rightarrow> string list option" where
  "z_strings [] = Some []"
| "z_strings (JStr s # js) = (case z_strings js of None \<Rightarrow> None | Some ss \<Rightarrow> Some (s # ss))"
| "z_strings (_ # js) = None"

fun z_string_array :: "json option \<Rightarrow> string list option" where
  "z_string_array (Some (JArr js)) = z_strings js"
| "z_string_array _ = None"

text \<open>\<^verbatim>\<open>z.object\<close> first checks that the input is an object (not an array, not null).\<close>

fun z_object :: "json option \<Rightarrow> (string \<times> json) list option" where
  "z_object (Some (JObj kvs)) = Some kvs"
| "z_object _ = None"

datatype notification_type = toast | alert | alert_dialog

text \<open>\<^verbatim>\<open>z.enum(['toast', 'alert', 'alert_dialog'])\<close>.\<close>

definition z_notification_type :: "json option \<Rightarrow> notification_type option" where
  "z_notification_type v = (case z_string v of
       None \<Rightarrow> None
     | Some s \<Rightarrow>
         if s = ''toast'' then Some toast
         else if s = ''alert'' then Some alert
         else if s = ''alert_dialog'' then Some alert_dialog
         else None)"

record notification =
  type :: notification_type
  title :: string
  message :: string
  style :: string
  backgroundColor :: string
  textColor :: string
  borderColor :: string
  imageUrl :: "string option"

text \<open>
  The parsed messages. The code destructures each of them at once
  (\<^verbatim>\<open>const { droplertId, websiteUrl } = data\<close>), so they are constructors to match on.
  The \<^verbatim>\<open>action\<close> of a subscription message is the literal \<^verbatim>\<open>'subscribe'\<close> and is not kept.
\<close>

datatype SubscriptionMessage = SubscriptionMessage string string

datatype SetApiKeyMessage = SetApiKeyMessage string string

datatype NotificationPayload = NotificationPayload string "string list" notification

definition SubscriptionMessageSchema_parse :: "json \<Rightarrow> zod_error + SubscriptionMessage" where
  "SubscriptionMessageSchema_parse j = (case z_object (Some j) of
       None \<Rightarrow> Inl ZodError
     | Some kvs \<Rightarrow>
        (case z_literal ''subscribe'' (map_of kvs ''action'') of
           None \<Rightarrow> Inl ZodError
         | Some a \<Rightarrow>
            (case z_string (map_of kvs ''droplertId'') of
               None \<Rightarrow> Inl ZodError
             | Some d \<Rightarrow>
                (case z_string (map_of kvs ''websiteUrl'') of
                   None \<Rightarrow> Inl ZodError
                 | Some w \<Rightarrow> Inr (SubscriptionMessage d w)))))"

definition SetApiKeySchema_parse :: "json \<Rightarrow> zod_error + SetApiKeyMessage" where
  "SetApiKeySchema_parse j = (case z_object (Some j) of
       None \<Rightarrow> Inl ZodError
     | Some kvs \<Rightarrow>
        (case z_string (map_of kvs ''droplertId'') of
           None \<Rightarrow> Inl ZodError
         | Some d \<Rightarrow>
            (case z_string (map_of kvs ''websiteUrl'') of
               None \<Rightarrow> Inl ZodError
             | Some w \<Rightarrow> Inr (SetApiKeyMessage d w))))"

definition notification_parse :: "json option \<Rightarrow> notification option" where
  "notification_parse v = (case z_object v of
       None \<Rightarrow> None
     | Some kvs \<Rightarrow>
        (case (z_notification_type (map_of kvs ''type''),
               z_string (map_of kvs ''title''),
               z_string (map_of kvs ''message''),
               z_string (map_of kvs ''style'')) of
           (Some ty, Some ti, Some me, Some st) \<Rightarrow>
             (case (z_string (map_of kvs ''backgroundColor''),
                    z_string (map_of kvs ''textColor''),
                    z_string (map_of kvs ''borderColor''),
                    z_string_optional (map_of kvs ''imageUrl'')) of
                (Some bg, Some tc, Some bc, Some im) \<Rightarrow>
                  Some \<lparr>type = ty, title = ti, message = me, style = st,
                        backgroundColor = bg, textColor = tc, borderColor = bc,
                        imageUrl = im\<rparr>
              | _ \<Rightarrow> None)
         | _ \<Rightarrow> None))"

definition NotificationPayloadSchema_parse :: "json \<Rightarrow> zod_error + NotificationPayload" where
  "NotificationPayloadSchema_parse j = (case z_object (Some j) of
       None \<Rightarrow> Inl ZodError
     | Some kvs \<Rightarrow>
        (case z_string (map_of kvs ''droplertId'') of
           None \<Rightarrow> Inl ZodError
         | Some d \<Rightarrow>
            (case z_string_array (map_of kvs ''websites'') of
               None \<Rightarrow> Inl ZodError
             | Some ws \<Rightarrow>
                (case notification_parse (map_of kvs ''notification'') of
                   None \<Rightarrow> Inl ZodError
                 | Some n \<Rightarrow> Inr (NotificationPayload d ws n)))))"

subsection \<open>Client objects\<close>

text \<open>
  \<^verbatim>\<open>interface WebSocketClient extends WebSocket { isAlive?, droplertId?, websiteUrl? }\<close>.
  An optional property is an option; \<open>None\<close> is \<^verbatim>\<open>undefined\<close>.

  \<open>readyState\<close> is \<open>Some\<close> of the state of the transport for an object made by the
  \<^verbatim>\<open>ws\<close> library and \<open>None\<close> for a plain object literal, which has no such property.
  The objects with \<open>readyState = None\<close> are therefore the ones that fail
  \<^verbatim>\<open>instanceof WebSocket\<close>.

  \<open>sent\<close> and \<open>pings\<close> record the calls of \<^verbatim>\<open>send\<close> and \<^verbatim>\<open>ping\<close> that the program
  makes on the object, in order. Both calls are taken to return normally, as they do in
  \<^verbatim>\<open>ws\<close> on a socket that is past \<^verbatim>\<open>CONNECTING\<close> (a server-side socket always is).
\<close>

datatype ready_state = CONNECTING | OPEN | CLOSING | CLOSED

text \<open>The three JSON texts that the program sends over a socket.\<close>

datatype frame =
    SubscribedFrame string     \<comment> \<open>\<^verbatim>\<open>{success: true, message}\<close>\<close>
  | ErrorFrame string          \<comment> \<open>\<^verbatim>\<open>{error}\<close>\<close>
  | NotificationFrame notification  \<comment> \<open>\<^verbatim>\<open>{type: 'notification', data}\<close>\<close>

record client =
  readyState :: "ready_state option"
  isAlive :: "bool option"
  droplertId :: "string option"
  websiteUrl :: "string option"
  sent :: "frame list"
  pings :: nat

type_synonym ref = nat

definition instanceof_WebSocket :: "client \<Rightarrow> bool" where
  "instanceof_WebSocket c = (readyState c \<noteq> None)"

text \<open>Truthiness of an optional string (\<^verbatim>\<open>undefined\<close> and \<^verbatim>\<open>''\<close> are falsy) and of an optional boolean.\<close>

definition truthy_string :: "string option \<Rightarrow> bool" where
  "truthy_string v = (case v of None \<Rightarrow> False | Some s \<Rightarrow> s \<noteq> [])"

definition truthy_bool :: "bool option \<Rightarrow> bool" where
  "truthy_bool v = (case v of None \<Rightarrow> False | Some b \<Rightarrow> b)"

definition ws_send :: "frame \<Rightarrow> client \<Rightarrow> client" where
  "ws_send f c = c\<lparr>sent := sent c @ [f]\<rparr>"

definition ws_ping :: "client \<Rightarrow> client" where
  "ws_ping c = c\<lparr>pings := Suc (pings c)\<rparr>"

subsection \<open>The JavaScript containers\<close>

text \<open>
  A \<^verbatim>\<open>Map\<close> iterates in insertion order: \<^verbatim>\<open>set\<close> on a present key replaces the value in
  place, on a new key it appends. This is \<^const>\<open>AList.update\<close>. A \<^verbatim>\<open>Set\<close> is a list
  without repetition in insertion order.
\<close>

definition Set_add :: "'a \<Rightarrow> 'a list \<Rightarrow> 'a list" where
  "Set_add x xs = (if x \<in> set xs then xs else xs @ [x])"

definition Set_delete :: "'a \<Rightarrow> 'a list \<Rightarrow> 'a list" where
  "Set_delete x xs = removeAll x xs"

subsection \<open>The server\<close>

record server =
  userChannels :: "(string \<times> ref list) list"
  apiKeys :: "string \<rightharpoonup> string"
  heap :: "ref \<Rightarrow> client"
  fresh :: ref

text \<open>
  \<open>fresh\<close> is the next unused reference: \<^verbatim>\<open>new\<close> and an object literal take it.
  An object that was never created has every property undefined.
\<close>

definition blank :: client where
  "blank = \<lparr>readyState = None, isAlive = None, droplertId = None, websiteUrl = None,
            sent = [], pings = 0\<rparr>"

definition init :: server where
  "init = \<lparr>userChannels = [], apiKeys = Map.empty, heap = (\<lambda>_. blank), fresh = 0\<rparr>"

definition modify :: "ref \<Rightarrow> (client \<Rightarrow> client) \<Rightarrow> server \<Rightarrow> server" where
  "modify r f s = s\<lparr>heap := (heap s)(r := f (heap s r))\<rparr>"

text \<open>\<^verbatim>\<open>handleSubscription\<close>, lines 129 to 153.\<close>

definition handleSubscription :: "ref \<Rightarrow> SubscriptionMessage \<Rightarrow> server \<Rightarrow> server" where
  "handleSubscription ws data s = (case data of SubscriptionMessage d w \<Rightarrow>
     let s1 = modify ws (\<lambda>c. c\<lparr>droplertId := Some d, websiteUrl := Some w\<rparr>) s;
         s2 = (if map_of (userChannels s1) d = None
               then s1\<lparr>userChannels := AList.update d [] (userChannels s1)\<rparr>
               else s1);
         s3 = (case map_of (userChannels s2) d of
                 None \<Rightarrow> s2
               | Some clients \<Rightarrow>
                   s2\<lparr>userChannels := AList.update d (Set_add ws clients) (userChannels s2)\<rparr>)
     in modify ws (ws_send (SubscribedFrame (''Subscribed to notifications for '' @ w))) s3)"

text \<open>
  The \<^verbatim>\<open>message\<close> listener, lines 107 to 116. Its argument is the outcome of
  \<^verbatim>\<open>JSON.parse(message)\<close>: \<open>None\<close> when that throws a \<^verbatim>\<open>SyntaxError\<close>. Either exception
  ends in the \<^verbatim>\<open>catch\<close>.
\<close>

definition onMessage :: "ref \<Rightarrow> json option \<Rightarrow> server \<Rightarrow> server" where
  "onMessage ws parsed s = (case parsed of
       None \<Rightarrow> modify ws (ws_send (ErrorFrame ''Invalid subscription message'')) s
     | Some j \<Rightarrow>
        (case SubscriptionMessageSchema_parse j of
           Inl e \<Rightarrow> modify ws (ws_send (ErrorFrame ''Invalid subscription message'')) s
         | Inr data \<Rightarrow> handleSubscription ws data s))"

text \<open>The \<^verbatim>\<open>pong\<close> listener, lines 118 to 121.\<close>

definition onPong :: "ref \<Rightarrow> server \<Rightarrow> server" where
  "onPong ws s = modify ws (\<lambda>c. c\<lparr>isAlive := Some True\<rparr>) s"

text \<open>\<^verbatim>\<open>removeConnection\<close>, lines 245 to 256.\<close>

definition removeConnection :: "ref \<Rightarrow> server \<Rightarrow> server" where
  "removeConnection ws s =
     (case droplertId (heap s ws) of
        None \<Rightarrow> s
      | Some d \<Rightarrow>
         if d = [] then s
         else
          (case map_of (userChannels s) d of
             None \<Rightarrow> s
           | Some userClients \<Rightarrow>
               (let userClients' = Set_delete ws userClients in
                if length userClients' = 0
                then s\<lparr>userChannels := AList.delete d (userChannels s)\<rparr>
                else s\<lparr>userChannels := AList.update d userClients' (userChannels s)\<rparr>)))"

text \<open>\<^verbatim>\<open>verifyApiKey\<close> and \<^verbatim>\<open>storeApiKey\<close>, lines 258 to 268. The log line is not modelled.\<close>

definition verifyApiKey :: "string \<Rightarrow> string \<Rightarrow> server \<Rightarrow> bool" where
  "verifyApiKey apiKey d s = (apiKeys s d = Some apiKey)"

definition storeApiKey :: "string \<Rightarrow> string \<Rightarrow> server \<Rightarrow> server" where
  "storeApiKey d apiKey s = s\<lparr>apiKeys := (apiKeys s)(d \<mapsto> apiKey)\<rparr>"

subsection \<open>The HTTP routes\<close>

text \<open>
  What \<^verbatim>\<open>res.status(n).json(body)\<close> answers: the status (200 when the code sets none)
  and the body. The \<^verbatim>\<open>details\<close> of a validation answer are the issues of the
  \<^verbatim>\<open>ZodError\<close> and are not modelled.
\<close>

datatype body =
    ErrorBody string            \<comment> \<open>\<^verbatim>\<open>{error}\<close>\<close>
  | InvalidBody string          \<comment> \<open>\<^verbatim>\<open>{error, details}\<close>\<close>
  | SuccessBody string          \<comment> \<open>\<^verbatim>\<open>{success: true, message}\<close>\<close>

datatype response = Response nat body

text \<open>The condition of line 175 to 179 on one client object.\<close>

definition deliverable :: "string list \<Rightarrow> client \<Rightarrow> bool" where
  "deliverable websites c =
     (readyState c = Some OPEN \<and>
      (case websiteUrl c of
         None \<Rightarrow> False
       | Some u \<Rightarrow> u \<noteq> [] \<and> u \<in> set websites))"

text \<open>\<^verbatim>\<open>userClients.forEach\<close> of line 174: the callback changes no set.\<close>

fun notifyClients :: "string list \<Rightarrow> notification \<Rightarrow> ref list \<Rightarrow> server \<Rightarrow> server" where
  "notifyClients websites n [] s = s"
| "notifyClients websites n (client # rest) s =
     notifyClients websites n rest
       (if deliverable websites (heap s client)
        then modify client (ws_send (NotificationFrame n)) s
        else s)"

text \<open>
  \<^verbatim>\<open>handleNotification\<close>, lines 156 to 200, on \<^verbatim>\<open>req.body\<close>. A \<^verbatim>\<open>Set\<close> object is truthy
  also when it is empty, so line 165 answers 404 only for a missing entry. The only
  exception that the \<^verbatim>\<open>try\<close> block can raise here is the \<^verbatim>\<open>ZodError\<close> of the schema, so
  the 500 branch of the \<^verbatim>\<open>catch\<close> has no case; the same holds for \<^verbatim>\<open>setApiKey\<close>.
\<close>

definition handleNotification :: "json \<Rightarrow> server \<Rightarrow> response \<times> server" where
  "handleNotification reqBody s = (case NotificationPayloadSchema_parse reqBody of
       Inl e \<Rightarrow> (Response 400 (InvalidBody ''Invalid payload format''), s)
     | Inr (NotificationPayload d websites n) \<Rightarrow>
        (case map_of (userChannels s) d of
           None \<Rightarrow> (Response 404 (ErrorBody ''No connected websites found for user''), s)
         | Some userClients \<Rightarrow>
             (Response 200 (SuccessBody ''Notification sent''),
              notifyClients websites n userClients s)))"

text \<open>
  \<^verbatim>\<open>setApiKey\<close>, lines 204 to 243, on the \<^verbatim>\<open>apikey\<close> header and \<^verbatim>\<open>req.body\<close>.
  The object literal of line 226 is a new object with three properties.
\<close>

definition setApiKey :: "string option \<Rightarrow> json \<Rightarrow> server \<Rightarrow> response \<times> server" where
  "setApiKey apiKeyHeader reqBody s =
     (if \<not> truthy_string apiKeyHeader
      then (Response 401 (ErrorBody ''Missing API key in headers''), s)
      else
       (case (apiKeyHeader, SetApiKeySchema_parse reqBody) of
          (Some apiKey, Inr (SetApiKeyMessage d w)) \<Rightarrow>
            (let s1 = storeApiKey d apiKey s;
                 s2 = (case map_of (userChannels s1) d of
                         None \<Rightarrow> s1\<lparr>userChannels := AList.update d [] (userChannels s1)\<rparr>
                       | Some clients \<Rightarrow> s1);
                 userClients = (case map_of (userChannels s2) d of
                                  None \<Rightarrow> []
                                | Some clients \<Rightarrow> clients);
                 newClient = fresh s2;
                 s3 = s2\<lparr>heap := (heap s2)(newClient :=
                            blank\<lparr>droplertId := Some d, websiteUrl := Some w,
                                  isAlive := Some True\<rparr>),
                         fresh := Suc newClient\<rparr>;
                 s4 = s3\<lparr>userChannels :=
                            AList.update d (Set_add newClient userClients) (userChannels s3)\<rparr>
             in (Response 200 (SuccessBody
                   (''API key set successfully for user '' @ d @ '' and website '' @ w @
                    '' added to subscriptions'')), s4))
        | _ \<Rightarrow> (Response 400 (InvalidBody ''Invalid request format''), s)))"

subsection \<open>The cleanup sweep\<close>

text \<open>The callback of the inner \<^verbatim>\<open>forEach\<close>, lines 275 to 287.\<close>

definition cleanupClient :: "ref \<Rightarrow> server \<Rightarrow> server" where
  "cleanupClient client s =
     (if \<not> truthy_bool (isAlive (heap s client)) then removeConnection client s
      else if instanceof_WebSocket (heap s client)
      then modify client (\<lambda>c. ws_ping (c\<lparr>isAlive := Some False\<rparr>)) s
      else s)"

text \<open>
  \<^verbatim>\<open>forEach\<close> of a \<^verbatim>\<open>Set\<close> or \<^verbatim>\<open>Map\<close> walks the live container: an element deleted
  before its turn is not visited. The sweep inserts nothing, so walking the elements
  present at the start and skipping those that are gone at their turn is the same walk.
  \<^verbatim>\<open>removeConnection\<close> deletes a key of \<^verbatim>\<open>userChannels\<close> only when its set has just
  become empty, so the set that the inner loop walks is the one found under its key
  as long as the key is there, and is empty once it is not.
\<close>

definition members :: "string \<Rightarrow> server \<Rightarrow> ref list" where
  "members d s = (case map_of (userChannels s) d of None \<Rightarrow> [] | Some clients \<Rightarrow> clients)"

fun cleanupClients :: "string \<Rightarrow> ref list \<Rightarrow> server \<Rightarrow> server" where
  "cleanupClients d [] s = s"
| "cleanupClients d (client # rest) s =
     cleanupClients d rest
       (if client \<in> set (members d s) then cleanupClient client s else s)"

fun cleanupChannels :: "string list \<Rightarrow> server \<Rightarrow> server" where
  "cleanupChannels [] s = s"
| "cleanupChannels (d # rest) s =
     cleanupChannels rest
       (case map_of (userChannels s) d of
          None \<Rightarrow> s
        | Some clients \<Rightarrow> cleanupClients d clients s)"

definition cleanup :: "server \<Rightarrow> server" where
  "cleanup s = cleanupChannels (map fst (userChannels s)) s"

subsection \<open>Events\<close>

text \<open>
  \<^verbatim>\<open>handleConnection\<close>, lines 103 to 127: it sets the flag and installs the three
  listeners, which are the cases of \<open>step\<close> below.
\<close>

definition handleConnection :: "ref \<Rightarrow> server \<Rightarrow> server" where
  "handleConnection ws s = modify ws (\<lambda>c. c\<lparr>isAlive := Some True\<rparr>) s"

definition onClose :: "ref \<Rightarrow> server \<Rightarrow> server" where
  "onClose ws s = removeConnection ws s"

text \<open>
  What can happen to the server. \<open>Connection\<close> is the \<^verbatim>\<open>ws\<close> library accepting a
  socket: a new object, open, passed to \<^verbatim>\<open>handleConnection\<close>. \<open>Closing\<close> is the transport
  of a socket leaving \<^verbatim>\<open>OPEN\<close>, which runs no code of the program; \<open>Close\<close> is the
  \<^verbatim>\<open>close\<close> event, emitted once, with the socket \<^verbatim>\<open>CLOSED\<close>. The library emits the
  events of a socket only between its accept and its close.
\<close>

datatype event =
    Connection
  | Message ref "json option"
  | Pong ref
  | Closing ref
  | Close ref
  | Notify json
  | SetKey "string option" json
  | Cleanup

definition connected :: "server \<Rightarrow> ref \<Rightarrow> bool" where
  "connected s ws =
     (ws < fresh s \<and> (readyState (heap s ws) = Some OPEN \<or> readyState (heap s ws) = Some CLOSING))"

fun step :: "event \<Rightarrow> server \<Rightarrow> server" where
  "step Connection s =
     handleConnection (fresh s)
       (s\<lparr>heap := (heap s)(fresh s := blank\<lparr>readyState := Some OPEN\<rparr>),
          fresh := Suc (fresh s)\<rparr>)"
| "step (Message ws parsed) s = (if connected s ws then onMessage ws parsed s else s)"
| "step (Pong ws) s = (if connected s ws then onPong ws s else s)"
| "step (Closing ws) s =
     (if ws < fresh s \<and> readyState (heap s ws) = Some OPEN
      then modify ws (\<lambda>c. c\<lparr>readyState := Some CLOSING\<rparr>) s
      else s)"
| "step (Close ws) s =
     (if connected s ws
      then onClose ws (modify ws (\<lambda>c. c\<lparr>readyState := Some CLOSED\<rparr>) s)
      else s)"
| "step (Notify reqBody) s = snd (handleNotification reqBody s)"
| "step (SetKey apiKeyHeader reqBody) s = snd (setApiKey apiKeyHeader reqBody s)"
| "step Cleanup s = cleanup s"

text \<open>The state after a sequence of events, from the start of the process.\<close>

definition run :: "event list \<Rightarrow> server" where
  "run es = fold step es init"

subsection \<open>The shape of a subscribe message\<close>

text \<open>
  What the interface asks of a subscribe message, written without the schema: a JSON
  object whose \<^verbatim>\<open>action\<close> is the string \<^verbatim>\<open>subscribe\<close> and whose \<^verbatim>\<open>droplertId\<close> and
  \<^verbatim>\<open>websiteUrl\<close> are strings. Text that is not JSON has no shape.
\<close>

fun is_string :: "json option \<Rightarrow> bool" where
  "is_string (Some (JStr s)) = True"
| "is_string _ = False"

fun subscribe_shape :: "json option \<Rightarrow> bool" where
  "subscribe_shape (Some (JObj kvs)) =
     (map_of kvs ''action'' = Some (JStr ''subscribe'') \<and>
      is_string (map_of kvs ''droplertId'') \<and>
      is_string (map_of kvs ''websiteUrl''))"
| "subscribe_shape _ = False"

subsection \<open>Sample inputs\<close>

definition subscribe_json :: "string \<Rightarrow> string \<Rightarrow> json" where
  "subscribe_json d w =
     JObj [(''action'', JStr ''subscribe''), (''droplertId'', JStr d), (''websiteUrl'', JStr w)]"

text \<open>A subscribe message that lacks its \<^verbatim>\<open>websiteUrl\<close>.\<close>

definition incomplete_json :: json where
  "incomplete_json = JObj [(''action'', JStr ''subscribe''), (''droplertId'', JStr ''acct1'')]"

text \<open>One socket that subscribes to \<^verbatim>\<open>acct1\<close> and then to \<^verbatim>\<open>acct2\<close>.\<close>

definition resubscribed :: server where
  "resubscribed = run [Connection,
     Message 0 (Some (subscribe_json ''acct1'' ''https://a.com'')),
     Message 0 (Some (subscribe_json ''acct2'' ''https://a.com''))]"

subsection \<open>Well-formed channels\<close>

text \<open>
  What a \<^verbatim>\<open>Map\<close> of \<^verbatim>\<open>Set\<close>s is by construction, and what the program keeps: one entry
  per key, no element twice in a set, and no empty set left in the map.
\<close>

definition proper :: "(string \<times> ref list) list \<Rightarrow> bool" where
  "proper uc = (distinct (map fst uc) \<and>
                (\<forall>d cs. map_of uc d = Some cs \<longrightarrow> distinct cs \<and> cs \<noteq> []))"

subsection \<open>Sample requests and states\<close>

text \<open>The notification of the scenario of the specification, and a request that carries it.\<close>

definition hello :: notification where
  "hello = \<lparr>type = toast, title = ''Hi'', message = ''Hello'', style = '''',
            backgroundColor = ''#fff'', textColor = ''#000'', borderColor = ''#000'',
            imageUrl = None\<rparr>"

definition notify_json :: "string \<Rightarrow> string list \<Rightarrow> json" where
  "notify_json d websites =
     JObj [(''droplertId'', JStr d), (''websites'', JArr (map JStr websites)),
           (''notification'', JObj [(''type'', JStr ''toast''), (''title'', JStr ''Hi''),
              (''message'', JStr ''Hello''), (''style'', JStr ''''),
              (''backgroundColor'', JStr ''#fff''), (''textColor'', JStr ''#000''),
              (''borderColor'', JStr ''#000'')])]"

text \<open>One socket subscribed to \<^verbatim>\<open>acct1\<close> with the empty string as its origin.\<close>

definition empty_origin :: server where
  "empty_origin = run [Connection, Message 0 (Some (subscribe_json ''acct1'' ''''))]"

text \<open>One socket subscribed to \<^verbatim>\<open>acct1\<close> whose transport has left \<^verbatim>\<open>OPEN\<close>.\<close>

definition closing_events :: "event list" where
  "closing_events =
     [Connection, Message 0 (Some (subscribe_json ''acct1'' ''https://a.com'')), Closing 0]"

definition open_events :: "event list" where
  "open_events = [Connection, Message 0 (Some (subscribe_json ''acct1'' ''https://a.com''))]"

subsection \<open>The placeholder of the set route\<close>

text \<open>
  The object that line 226 makes for account \<open>d\<close>, as long as nothing has touched it: a
  plain object, flagged alive, tagged with \<open>d\<close>, never sent to, never pinged, in the set
  of \<open>d\<close>.
\<close>

definition reserved :: "ref \<Rightarrow> string \<Rightarrow> server \<Rightarrow> bool" where
  "reserved p d s =
     (p < fresh s \<and> readyState (heap s p) = None \<and> isAlive (heap s p) = Some True \<and>
      droplertId (heap s p) = Some d \<and> sent (heap s p) = [] \<and> pings (heap s p) = 0 \<and>
      p \<in> set (members d s))"

text \<open>A body for the \<^verbatim>\<open>/set\<close> route.\<close>

definition set_json :: "string \<Rightarrow> string \<Rightarrow> json" where
  "set_json d w = JObj [(''droplertId'', JStr d), (''websiteUrl'', JStr w)]"

subsection \<open>Registering and unregistering in bulk\<close>

text \<open>
  Subscribing a list of sockets to one account, each with its own origin, and removing
  a list of connections, one call after the other.
\<close>

fun subscribeAll :: "string \<Rightarrow> (ref \<times> string) list \<Rightarrow> server \<Rightarrow> server" where
  "subscribeAll A [] s = s"
| "subscribeAll A ((c, w) # rest) s =
     subscribeAll A rest (handleSubscription c (SubscriptionMessage A w) s)"

fun unregisterAll :: "ref list \<Rightarrow> server \<Rightarrow> server" where
  "unregisterAll [] s = s"
| "unregisterAll (c # rest) s = unregisterAll rest (removeConnection c s)"

text \<open>The set of \<open>A\<close> holds only objects tagged \<open>A\<close> and is not an empty entry.\<close>

definition tagged_channel :: "string \<Rightarrow> server \<Rightarrow> bool" where
  "tagged_channel A s =
     ((\<forall>c\<in>set (members A s). droplertId (heap s c) = Some A) \<and>
      map_of (userChannels s) A \<noteq> Some [])"

subsection \<open>A registered connection under the sweep\<close>

text \<open>
  A live socket \<open>c\<close> registered under the non-empty account \<open>A\<close> and nowhere else: it is
  tagged \<open>A\<close>, it is once in the set of \<open>A\<close> and in the set of no other key.
\<close>

definition registered :: "ref \<Rightarrow> string \<Rightarrow> server \<Rightarrow> bool" where
  "registered c A s =
     (A \<noteq> [] \<and> connected s c \<and> droplertId (heap s c) = Some A \<and>
      count_list (members A s) c = 1 \<and>
      (\<forall>d\<in>set (map fst (userChannels s)). d \<noteq> A \<longrightarrow> c \<notin> set (members d s)))"

text \<open>A message that is a valid subscription to an account other than \<open>A\<close>.\<close>

definition resubscribes :: "string \<Rightarrow> json option \<Rightarrow> bool" where
  "resubscribes A parsed = (case parsed of
       None \<Rightarrow> False
     | Some j \<Rightarrow>
        (case SubscriptionMessageSchema_parse j of
           Inl e \<Rightarrow> False
         | Inr (SubscriptionMessage d w) \<Rightarrow> d \<noteq> A))"

text \<open>
  Events in which socket \<open>c\<close> never acknowledges a probe and never subscribes to
  another account.
\<close>

fun silent :: "ref \<Rightarrow> string \<Rightarrow> event list \<Rightarrow> bool" where
  "silent c A [] = True"
| "silent c A (Pong c' # es) = (c' \<noteq> c \<and> silent c A es)"
| "silent c A (Message c' parsed # es) = (\<not> (c' = c \<and> resubscribes A parsed) \<and> silent c A es)"
| "silent c A (e # es) = silent c A es"

text \<open>
  Events in which socket \<open>c\<close> stays open, never subscribes to another account, and has
  acknowledged the last probe before each sweep; \<open>a\<close> tells whether it has at the start.
\<close>

fun answering :: "ref \<Rightarrow> string \<Rightarrow> bool \<Rightarrow> event list \<Rightarrow> bool" where
  "answering c A a [] = True"
| "answering c A a (Cleanup # es) = (a \<and> answering c A False es)"
| "answering c A a (Pong c' # es) = answering c A (a \<or> c' = c) es"
| "answering c A a (Message c' parsed # es) =
     (\<not> (c' = c \<and> resubscribes A parsed) \<and> answering c A a es)"
| "answering c A a (Close c' # es) = (c' \<noteq> c \<and> answering c A a es)"
| "answering c A a (e # es) = answering c A a es"

text \<open>The same registration with the quantifier over all keys, and its opposite.\<close>

definition held :: "ref \<Rightarrow> string \<Rightarrow> server \<Rightarrow> bool" where
  "held c A s =
     (A \<noteq> [] \<and> c < fresh s \<and> droplertId (heap s c) = Some A \<and>
      count_list (members A s) c = 1 \<and> (\<forall>d. d \<noteq> A \<longrightarrow> c \<notin> set (members d s)))"

definition gone :: "ref \<Rightarrow> server \<Rightarrow> bool" where
  "gone c s = (\<forall>d. c \<notin> set (members d s))"

text \<open>One socket that subscribes with the empty string as its account.\<close>

definition empty_account_events :: "event list" where
  "empty_account_events = [Connection, Message 0 (Some (subscribe_json '''' ''https://a.com''))]"

section \<open>Properties\<close>

subsection \<open>Field access\<close>

lemma heap_modify [simp]: "heap (modify r f s) = (heap s)(r := f (heap s r))"
  and userChannels_modify [simp]: "userChannels (modify r f s) = userChannels s"
  and apiKeys_modify [simp]: "apiKeys (modify r f s) = apiKeys s"
  and fresh_modify [simp]: "fresh (modify r f s) = fresh s"
  by (simp_all add: modify_def)

lemma heap_removeConnection [simp]: "heap (removeConnection c s) = heap s"
  and fresh_removeConnection [simp]: "fresh (removeConnection c s) = fresh s"
  and apiKeys_removeConnection [simp]: "apiKeys (removeConnection c s) = apiKeys s"
  by (simp_all add: removeConnection_def Let_def split: option.splits)

subsection \<open>The schema of a subscribe message\<close>

lemma z_string_Some: "z_string v = Some s \<longleftrightarrow> v = Some (JStr s)"
  by (cases v rule: z_string.cases) auto

lemma z_string_None: "z_string v = None \<longleftrightarrow> \<not> is_string v"
  by (cases v rule: z_string.cases) auto

lemma z_literal_Some: "z_literal l v = Some s \<longleftrightarrow> (s = l \<and> v = Some (JStr l))"
  by (auto simp: z_literal_def z_string_Some split: option.splits)

lemma z_literal_None: "z_literal l v = None \<longleftrightarrow> v \<noteq> Some (JStr l)"
  by (cases v rule: z_string.cases) (auto simp: z_literal_def)

text \<open>The schema accepts exactly the messages of that shape.\<close>

lemma parse_shape:
  "(\<exists>m. SubscriptionMessageSchema_parse j = Inr m) \<longleftrightarrow> subscribe_shape (Some j)"
  by (cases j)
     (auto simp: SubscriptionMessageSchema_parse_def z_string_None z_literal_None
           z_string_Some z_literal_Some split: option.splits)

lemma onMessage_invalid:
  "\<not> subscribe_shape parsed \<Longrightarrow>
   onMessage ws parsed s = modify ws (ws_send (ErrorFrame ''Invalid subscription message'')) s"
  by (auto simp: onMessage_def split: option.splits sum.splits simp: parse_shape [symmetric])

text \<open>
  Claim C8. A message that is not of the subscribe shape makes the listener send the
  error payload on the same socket and change nothing else: the transport state, the
  three tags of the socket, every other object, the channels, the keys.
\<close>

theorem invalid_message_keeps_state:
  assumes "\<not> subscribe_shape parsed"
  shows "sent (heap (onMessage ws parsed s) ws) =
           sent (heap s ws) @ [ErrorFrame ''Invalid subscription message''] \<and>
         readyState (heap (onMessage ws parsed s) ws) = readyState (heap s ws) \<and>
         droplertId (heap (onMessage ws parsed s) ws) = droplertId (heap s ws) \<and>
         websiteUrl (heap (onMessage ws parsed s) ws) = websiteUrl (heap s ws) \<and>
         isAlive (heap (onMessage ws parsed s) ws) = isAlive (heap s ws) \<and>
         (\<forall>r. r \<noteq> ws \<longrightarrow> heap (onMessage ws parsed s) r = heap s r) \<and>
         userChannels (onMessage ws parsed s) = userChannels s \<and>
         apiKeys (onMessage ws parsed s) = apiKeys s \<and>
         fresh (onMessage ws parsed s) = fresh s"
  by (simp add: onMessage_invalid [OF assms] ws_send_def)

theorem invalid_message_keeps_state_witness:
  "\<not> subscribe_shape (Some incomplete_json) \<and>
   sent (heap (onMessage 0 (Some incomplete_json) (run [Connection])) 0) =
     [ErrorFrame ''Invalid subscription message''] \<and>
   readyState (heap (onMessage 0 (Some incomplete_json) (run [Connection])) 0) = Some OPEN \<and>
   userChannels (onMessage 0 (Some incomplete_json) (run [Connection])) = []"
proof -
  have shape: "\<not> subscribe_shape (Some incomplete_json)"
    by (simp add: incomplete_json_def)
  have start: "sent (heap (run [Connection]) 0) = [] \<and>
      readyState (heap (run [Connection]) 0) = Some OPEN \<and> userChannels (run [Connection]) = []"
    by (simp add: run_def init_def handleConnection_def blank_def)
  show ?thesis
    using invalid_message_keeps_state [OF shape, of 0 "run [Connection]"] shape start
    by simp
qed

subsection \<open>The credential store\<close>

text \<open>
  Claim C6. \<^verbatim>\<open>verifyApiKey\<close> holds exactly when a key is stored for the account and is
  the given one, so it fails when none is stored. \<^verbatim>\<open>storeApiKey\<close> overwrites: after two
  stores the second key verifies and the first, if different, does not.
\<close>

theorem verifyApiKey_storeApiKey:
  "(verifyApiKey key d s \<longleftrightarrow> (\<exists>k. apiKeys s d = Some k \<and> k = key)) \<and>
   (apiKeys s d = None \<longrightarrow> \<not> verifyApiKey key d s) \<and>
   apiKeys (storeApiKey d k1 s) d = Some k1 \<and>
   verifyApiKey k2 d (storeApiKey d k2 (storeApiKey d k1 s)) \<and>
   (k1 \<noteq> k2 \<longrightarrow> \<not> verifyApiKey k1 d (storeApiKey d k2 (storeApiKey d k1 s)))"
  by (auto simp: verifyApiKey_def storeApiKey_def)

theorem verifyApiKey_storeApiKey_witness:
  "''k1'' \<noteq> ''k2'' \<and> apiKeys init ''acct1'' = None \<and>
   \<not> verifyApiKey ''k1'' ''acct1'' init \<and>
   verifyApiKey ''k2'' ''acct1'' (storeApiKey ''acct1'' ''k2'' (storeApiKey ''acct1'' ''k1'' init)) \<and>
   \<not> verifyApiKey ''k1'' ''acct1'' (storeApiKey ''acct1'' ''k2'' (storeApiKey ''acct1'' ''k1'' init))"
  using verifyApiKey_storeApiKey [of "''k1''" "''acct1''" init "''k1''" "''k2''"]
  by (simp add: init_def)

subsection \<open>Removing a connection\<close>

text \<open>
  Claim C4. \<^verbatim>\<open>removeConnection\<close> is idempotent: a second call changes nothing, and
  on an object without \<^verbatim>\<open>droplertId\<close> already the first call changes nothing. The method
  has no statement that throws, so its model is a total function on states.
\<close>

theorem removeConnection_twice:
  "removeConnection c (removeConnection c s) = removeConnection c s \<and>
   (droplertId (heap s c) = None \<longrightarrow> removeConnection c s = s)"
proof
  show "removeConnection c (removeConnection c s) = removeConnection c s"
  proof (cases "droplertId (heap s c)")
    case None
    then show ?thesis by (simp add: removeConnection_def)
  next
    case (Some d)
    show ?thesis
    proof (cases "d = [] \<or> map_of (userChannels s) d = None")
      case True
      with Some show ?thesis by (auto simp: removeConnection_def)
    next
      case False
      then obtain cs where cs: "map_of (userChannels s) d = Some cs" and d: "d \<noteq> []" by auto
      show ?thesis
      proof (cases "removeAll c cs = []")
        case True
        with Some cs d show ?thesis
          by (simp add: removeConnection_def Set_delete_def AList.delete_conv')
      next
        case False
        with Some cs d show ?thesis
          by (simp add: removeConnection_def Set_delete_def AList.update_conv')
      qed
    qed
  qed
next
  show "droplertId (heap s c) = None \<longrightarrow> removeConnection c s = s"
    by (simp add: removeConnection_def)
qed

theorem removeConnection_twice_witness:
  "droplertId (heap (run [Connection]) 0) = None \<and>
   removeConnection 0 (run [Connection]) = run [Connection]"
proof -
  have "droplertId (heap (run [Connection]) 0) = None"
    by (simp add: run_def init_def handleConnection_def blank_def)
  then show ?thesis
    using removeConnection_twice [of 0 "run [Connection]"] by simp
qed

subsection \<open>Subscribing twice\<close>

text \<open>
  Claim C1. The claim fails on the code. \<^verbatim>\<open>handleSubscription\<close> overwrites
  \<^verbatim>\<open>droplertId\<close> and adds the socket to the set of the new account without taking it
  out of the set of the old one: after a subscribe to \<^verbatim>\<open>acct1\<close> and one to \<^verbatim>\<open>acct2\<close>
  the socket is in both sets, tagged \<^verbatim>\<open>acct2\<close>.
\<close>

theorem resubscribe_keeps_old_entry:
  "userChannels resubscribed = [(''acct1'', [0]), (''acct2'', [0])] \<and>
   droplertId (heap resubscribed 0) = Some ''acct2''"
  by (simp add: resubscribed_def run_def init_def handleConnection_def blank_def
      connected_def onMessage_def subscribe_json_def SubscriptionMessageSchema_parse_def
      z_literal_def handleSubscription_def Set_add_def ws_send_def)

subsection \<open>The members of a channel\<close>

lemma members_update [simp]:
  "members d (s\<lparr>userChannels := AList.update d' v (userChannels s)\<rparr>) =
     (if d = d' then v else members d s)"
  by (simp add: members_def AList.update_conv')

lemma members_delete [simp]:
  "members d (s\<lparr>userChannels := AList.delete d' (userChannels s)\<rparr>) =
     (if d = d' then [] else members d s)"
  by (simp add: members_def AList.delete_conv')

lemma members_modify [simp]: "members d (modify r f s) = members d s"
  by (simp add: members_def)

lemma members_heap_update [simp]: "members d (s\<lparr>heap := h\<rparr>) = members d s"
  and members_fresh_update [simp]: "members d (s\<lparr>fresh := n\<rparr>) = members d s"
  and members_apiKeys_update [simp]: "members d (s\<lparr>apiKeys := k\<rparr>) = members d s"
  by (simp_all add: members_def)

lemma members_absent: "map_of (userChannels s) d = None \<Longrightarrow> members d s = []"
  by (simp add: members_def)

lemma members_present: "members d s \<noteq> [] \<Longrightarrow> d \<in> set (map fst (userChannels s))"
  by (auto simp: members_def split: option.splits dest: map_of_SomeD intro: rev_image_eqI)

lemma members_removeConnection:
  "members d (removeConnection c s) =
     (if droplertId (heap s c) = Some d \<and> d \<noteq> [] then removeAll c (members d s)
      else members d s)"
  by (auto simp: removeConnection_def Set_delete_def Let_def members_absent
      split: option.splits) (simp_all add: members_def)

lemma keys_removeConnection:
  "distinct (map fst (userChannels s)) \<Longrightarrow>
   distinct (map fst (userChannels (removeConnection c s)))"
  by (auto simp: removeConnection_def Let_def AList.distinct_update AList.distinct_delete
      split: option.splits)

subsection \<open>What each method does to the store and to the channels\<close>

lemma heap_handleSubscription:
  "heap (handleSubscription ws (SubscriptionMessage d w) s) =
     (heap s)(ws := (heap s ws)\<lparr>droplertId := Some d, websiteUrl := Some w,
        sent := sent (heap s ws) @ [SubscribedFrame (''Subscribed to notifications for '' @ w)]\<rparr>)"
  by (auto simp: handleSubscription_def Let_def ws_send_def split: option.splits)

lemma fresh_handleSubscription [simp]: "fresh (handleSubscription ws m s) = fresh s"
  and apiKeys_handleSubscription [simp]: "apiKeys (handleSubscription ws m s) = apiKeys s"
  by (cases m; simp add: handleSubscription_def Let_def split: option.splits)+

lemma members_handleSubscription:
  "members d' (handleSubscription ws (SubscriptionMessage d w) s) =
     (if d' = d then Set_add ws (members d s) else members d' s)"
  by (auto simp: handleSubscription_def Let_def AList.update_conv' members_def
      split: option.splits)

lemma keys_handleSubscription:
  "distinct (map fst (userChannels s)) \<Longrightarrow>
   distinct (map fst (userChannels (handleSubscription ws m s)))"
  by (cases m) (auto simp: handleSubscription_def Let_def AList.distinct_update
      split: option.splits)

lemma deliverable_ws_send [simp]: "deliverable ws (ws_send f c) = deliverable ws c"
  by (simp add: deliverable_def ws_send_def)

lemma heap_notifyClients:
  "heap (notifyClients ws n cs s) r =
     (if deliverable ws (heap s r)
      then (heap s r)\<lparr>sent := sent (heap s r) @ replicate (count_list cs r) (NotificationFrame n)\<rparr>
      else heap s r)"
proof (induction cs arbitrary: s)
  case Nil
  show ?case by simp
next
  case (Cons c cs)
  show ?case
    by (simp add: Cons.IH ws_send_def replicate_app_Cons_same) (simp add: deliverable_def)
qed

lemma userChannels_notifyClients [simp]:
  "userChannels (notifyClients ws n cs s) = userChannels s"
  by (induction cs arbitrary: s) simp_all

lemma fresh_notifyClients [simp]: "fresh (notifyClients ws n cs s) = fresh s"
  by (induction cs arbitrary: s) simp_all

lemma apiKeys_notifyClients [simp]: "apiKeys (notifyClients ws n cs s) = apiKeys s"
  by (induction cs arbitrary: s) simp_all

lemma members_notifyClients [simp]: "members d (notifyClients ws n cs s) = members d s"
  by (simp add: members_def)

lemma heap_cleanupClient:
  "heap (cleanupClient c s) r =
     (if r = c \<and> truthy_bool (isAlive (heap s c)) \<and> instanceof_WebSocket (heap s c)
      then (heap s c)\<lparr>isAlive := Some False, pings := Suc (pings (heap s c))\<rparr>
      else heap s r)"
  by (simp add: cleanupClient_def ws_ping_def)

lemma fresh_cleanupClient [simp]: "fresh (cleanupClient c s) = fresh s"
  and apiKeys_cleanupClient [simp]: "apiKeys (cleanupClient c s) = apiKeys s"
  by (simp_all add: cleanupClient_def)

lemma members_cleanupClient:
  "members d (cleanupClient c s) =
     (if \<not> truthy_bool (isAlive (heap s c)) \<and> droplertId (heap s c) = Some d \<and> d \<noteq> []
      then removeAll c (members d s) else members d s)"
  by (simp add: cleanupClient_def members_removeConnection)

lemma keys_cleanupClient:
  "distinct (map fst (userChannels s)) \<Longrightarrow>
   distinct (map fst (userChannels (cleanupClient c s)))"
  by (simp add: cleanupClient_def keys_removeConnection)

subsection \<open>Invariants of the sweep\<close>

lemma cleanupChannels_step:
  "(case map_of (userChannels s) d of None \<Rightarrow> s | Some clients \<Rightarrow> cleanupClients d clients s) =
   cleanupClients d (members d s) s"
  by (simp add: members_def split: option.splits)

lemma cleanupClients_invariant:
  assumes "\<And>c s. P s \<Longrightarrow> c \<in> set (members d s) \<Longrightarrow> P (cleanupClient c s)"
  shows "P s \<Longrightarrow> P (cleanupClients d cs s)"
  by (induction cs arbitrary: s) (simp_all add: assms)

lemma cleanupChannels_invariant:
  assumes "\<And>d c s. P s \<Longrightarrow> d \<in> set ds \<Longrightarrow> c \<in> set (members d s) \<Longrightarrow> P (cleanupClient c s)"
  shows "P s \<Longrightarrow> P (cleanupChannels ds s)"
  using assms
proof (induction ds arbitrary: s)
  case Nil
  then show ?case by simp
next
  case (Cons d ds)
  have "P (cleanupClients d (members d s) s)"
    by (rule cleanupClients_invariant [where P = P]) (auto intro: Cons.prems)
  then have "P (cleanupChannels ds (cleanupClients d (members d s) s))"
    by (rule Cons.IH) (auto intro: Cons.prems)
  then show ?case
    by (simp add: cleanupChannels_step)
qed

lemma cleanup_invariant:
  assumes "\<And>d c s. P s \<Longrightarrow> c \<in> set (members d s) \<Longrightarrow> P (cleanupClient c s)"
  shows "P s \<Longrightarrow> P (cleanup s)"
  unfolding cleanup_def by (rule cleanupChannels_invariant) (auto intro: assms)

subsection \<open>The two routes by cases\<close>

lemma setApiKey_rejected:
  "\<not> truthy_string hdr \<or> SetApiKeySchema_parse body = Inl e \<Longrightarrow> snd (setApiKey hdr body s) = s"
  by (auto simp: setApiKey_def truthy_string_def split: option.splits sum.splits SetApiKeyMessage.splits)

lemma setApiKey_accepted:
  assumes "hdr = Some k" and "k \<noteq> []" and "SetApiKeySchema_parse body = Inr (SetApiKeyMessage d w)"
  shows "setApiKey hdr body s =
     (Response 200 (SuccessBody (''API key set successfully for user '' @ d @ '' and website '' @ w @
                    '' added to subscriptions'')),
      s\<lparr>userChannels := AList.update d (Set_add (fresh s) (members d s)) (userChannels s),
        apiKeys := (apiKeys s)(d \<mapsto> k),
        heap := (heap s)(fresh s := blank\<lparr>droplertId := Some d, websiteUrl := Some w,
                                          isAlive := Some True\<rparr>),
        fresh := Suc (fresh s)\<rparr>)"
  using assms
  by (cases "map_of (userChannels s) d")
     (simp_all add: setApiKey_def truthy_string_def storeApiKey_def Let_def members_def
        AList.update_conv')

lemma setApiKey_cases:
  obtains (rejected) "snd (setApiKey hdr body s) = s"
  | (accepted) k d w where "hdr = Some k" "k \<noteq> []"
      "SetApiKeySchema_parse body = Inr (SetApiKeyMessage d w)"
proof (cases "truthy_string hdr")
  case False
  then show ?thesis using rejected setApiKey_rejected by blast
next
  case True
  then obtain k where k: "hdr = Some k" "k \<noteq> []"
    by (auto simp: truthy_string_def split: option.splits)
  show ?thesis
  proof (cases "SetApiKeySchema_parse body")
    case (Inl e)
    then show ?thesis using rejected setApiKey_rejected by blast
  next
    case (Inr m)
    then show ?thesis using accepted k by (cases m) auto
  qed
qed

lemma handleNotification_cases:
  obtains (invalid) e where
      "NotificationPayloadSchema_parse body = Inl e"
      "handleNotification body s = (Response 400 (InvalidBody ''Invalid payload format''), s)"
  | (absent) d websites n where
      "NotificationPayloadSchema_parse body = Inr (NotificationPayload d websites n)"
      "map_of (userChannels s) d = None"
      "handleNotification body s = (Response 404 (ErrorBody ''No connected websites found for user''), s)"
  | (found) d websites n where
      "NotificationPayloadSchema_parse body = Inr (NotificationPayload d websites n)"
      "map_of (userChannels s) d \<noteq> None"
      "handleNotification body s =
         (Response 200 (SuccessBody ''Notification sent''), notifyClients websites n (members d s) s)"
proof (cases "NotificationPayloadSchema_parse body")
  case (Inl e)
  then show ?thesis using invalid by (simp add: handleNotification_def)
next
  case (Inr p)
  obtain d websites n where p: "p = NotificationPayload d websites n" by (cases p)
  show ?thesis
  proof (cases "map_of (userChannels s) d")
    case None
    with Inr p show ?thesis using absent by (simp add: handleNotification_def)
  next
    case (Some cs)
    with Inr p show ?thesis using found [of d websites n]
      by (simp add: handleNotification_def members_def)
  qed
qed

subsection \<open>The channels stay a proper map of proper sets\<close>

lemma userChannels_handleSubscription:
  "userChannels (handleSubscription ws (SubscriptionMessage d w) s) =
     AList.update d (Set_add ws (members d s)) (userChannels s)"
  by (cases "map_of (userChannels s) d")
     (simp_all add: handleSubscription_def Let_def members_def AList.update_conv')

lemma userChannels_removeConnection:
  "userChannels (removeConnection c s) =
     (case droplertId (heap s c) of
        None \<Rightarrow> userChannels s
      | Some d \<Rightarrow>
          if d = [] \<or> map_of (userChannels s) d = None then userChannels s
          else if removeAll c (members d s) = [] then AList.delete d (userChannels s)
          else AList.update d (removeAll c (members d s)) (userChannels s))"
  by (auto simp: removeConnection_def Let_def Set_delete_def members_def split: option.splits)

lemma proper_init: "proper (userChannels init)"
  by (simp add: proper_def init_def)

lemma distinct_Set_add: "distinct xs \<Longrightarrow> distinct (Set_add x xs)"
  by (simp add: Set_add_def)

lemma Set_add_nonempty [simp]: "Set_add x xs \<noteq> []"
  by (simp add: Set_add_def) auto

lemma proper_update:
  "proper uc \<Longrightarrow> distinct v \<Longrightarrow> v \<noteq> [] \<Longrightarrow> proper (AList.update d v uc)"
  by (simp add: proper_def AList.distinct_update AList.update_conv')

lemma proper_delete: "proper uc \<Longrightarrow> proper (AList.delete d uc)"
  by (simp add: proper_def AList.distinct_delete AList.delete_conv')

lemma proper_members: "proper (userChannels s) \<Longrightarrow> distinct (members d s)"
  by (auto simp: proper_def members_def split: option.splits)

lemma proper_removeConnection:
  "proper (userChannels s) \<Longrightarrow> proper (userChannels (removeConnection c s))"
  by (auto simp: userChannels_removeConnection proper_delete proper_members distinct_removeAll
      intro!: proper_update split: option.splits)

lemma proper_handleSubscription:
  "proper (userChannels s) \<Longrightarrow> proper (userChannels (handleSubscription ws m s))"
  by (cases m)
     (simp add: userChannels_handleSubscription proper_update proper_members distinct_Set_add)

lemma proper_cleanup: "proper (userChannels s) \<Longrightarrow> proper (userChannels (cleanup s))"
  by (rule cleanup_invariant [where P = "\<lambda>s. proper (userChannels s)"])
     (simp_all add: cleanupClient_def proper_removeConnection)

lemma proper_step: "proper (userChannels s) \<Longrightarrow> proper (userChannels (step e s))"
proof (cases e)
  case (SetKey hdr body)
  assume s: "proper (userChannels s)"
  show ?thesis
  proof (cases hdr body s rule: setApiKey_cases)
    case rejected
    with s SetKey show ?thesis by simp
  next
    case (accepted k d w)
    show ?thesis
      using s
      by (simp add: SetKey setApiKey_accepted [OF accepted] proper_update proper_members
          distinct_Set_add)
  qed
next
  case (Notify body)
  assume "proper (userChannels s)"
  then show ?thesis
    by (cases body s rule: handleNotification_cases) (simp_all add: Notify)
qed (simp_all add: proper_cleanup proper_removeConnection proper_handleSubscription onMessage_def
       onPong_def onClose_def handleConnection_def split: option.splits sum.splits)

lemma proper_fold: "proper (userChannels s) \<Longrightarrow> proper (userChannels (fold step es s))"
  by (induction es arbitrary: s) (simp_all add: proper_step)

lemma proper_run: "proper (userChannels (run es))"
  by (simp add: run_def proper_fold proper_init)

subsection \<open>Dispatching a notification\<close>

lemmas eval_defs = run_def init_def handleConnection_def blank_def connected_def onMessage_def
  subscribe_json_def SubscriptionMessageSchema_parse_def z_literal_def handleSubscription_def
  Set_add_def ws_send_def members_def

lemma z_strings_map [simp]: "z_strings (map JStr ws) = Some ws"
  by (induction ws) simp_all

lemma parse_notify_json [simp]:
  "NotificationPayloadSchema_parse (notify_json d ws) = Inr (NotificationPayload d ws hello)"
  by (simp add: NotificationPayloadSchema_parse_def notify_json_def notification_parse_def
      z_notification_type_def hello_def)

lemma notifyClients_none:
  "\<forall>c\<in>set cs. \<not> deliverable ws (heap s c) \<Longrightarrow> notifyClients ws n cs s = s"
  by (induction cs arbitrary: s) simp_all

lemma not_open_not_deliverable: "readyState c \<noteq> Some OPEN \<Longrightarrow> \<not> deliverable ws c"
  by (simp add: deliverable_def)

lemma run_no_empty_set: "map_of (userChannels (run es)) d \<noteq> Some []"
  using proper_run [of es] unfolding proper_def by blast

text \<open>
  Claim C3. In every state that the server can reach, a valid notification request for
  account \<open>A\<close> is answered 404, with the state untouched, exactly when \<open>A\<close> has no entry
  in \<^verbatim>\<open>userChannels\<close> or an empty one (an empty one never occurs). With an entry it is
  answered 200 whatever is sent; when no socket of the set is open, nothing is sent and
  the state is untouched.
\<close>

theorem notify_not_found_iff:
  assumes "NotificationPayloadSchema_parse body = Inr (NotificationPayload A websites n)"
  shows "(handleNotification body (run es) =
            (Response 404 (ErrorBody ''No connected websites found for user''), run es)
          \<longleftrightarrow> map_of (userChannels (run es)) A = None \<or> map_of (userChannels (run es)) A = Some []) \<and>
         (\<not> (map_of (userChannels (run es)) A = None \<or> map_of (userChannels (run es)) A = Some [])
          \<longrightarrow> fst (handleNotification body (run es)) = Response 200 (SuccessBody ''Notification sent'')) \<and>
         (\<not> (map_of (userChannels (run es)) A = None \<or> map_of (userChannels (run es)) A = Some [])
          \<longrightarrow> (\<forall>c\<in>set (members A (run es)). readyState (heap (run es) c) \<noteq> Some OPEN)
          \<longrightarrow> handleNotification body (run es) =
                (Response 200 (SuccessBody ''Notification sent''), run es))"
proof (cases body "run es" rule: handleNotification_cases)
  case (invalid e)
  with assms show ?thesis by simp
next
  case (absent d websites' n')
  with assms show ?thesis by simp
next
  case (found d websites' n')
  with assms have [simp]: "d = A" "websites' = websites" "n' = n" by simp_all
  have "notifyClients websites n (members A (run es)) (run es) = run es"
    if "\<forall>c\<in>set (members A (run es)). readyState (heap (run es) c) \<noteq> Some OPEN"
    using that by (intro notifyClients_none) (simp add: not_open_not_deliverable)
  with found show ?thesis
    using run_no_empty_set [of es A] by auto
qed

theorem notify_not_found_iff_witness:
  "NotificationPayloadSchema_parse (notify_json ''acct1'' [''https://a.com'']) =
     Inr (NotificationPayload ''acct1'' [''https://a.com''] hello) \<and>
   map_of (userChannels (run closing_events)) ''acct1'' = Some [0] \<and>
   members ''acct1'' (run closing_events) = [0] \<and>
   readyState (heap (run closing_events) 0) = Some CLOSING \<and>
   handleNotification (notify_json ''acct1'' [''https://a.com'']) (run closing_events) =
     (Response 200 (SuccessBody ''Notification sent''), run closing_events)"
proof -
  have st: "userChannels (run closing_events) = [(''acct1'', [0])]"
      "readyState (heap (run closing_events) 0) = Some CLOSING"
    by (simp_all add: closing_events_def eval_defs)
  then have present: "\<not> (map_of (userChannels (run closing_events)) ''acct1'' = None \<or>
      map_of (userChannels (run closing_events)) ''acct1'' = Some [])"
    and closed: "\<forall>c\<in>set (members ''acct1'' (run closing_events)).
      readyState (heap (run closing_events) c) \<noteq> Some OPEN"
    by (simp_all add: members_def)
  show ?thesis
    using notify_not_found_iff [OF parse_notify_json, of "''acct1''" "[''https://a.com'']" closing_events]
      present closed st
    by (simp add: members_def)
qed

lemma count_list_distinct: "distinct xs \<Longrightarrow> x \<in> set xs \<Longrightarrow> count_list xs x = 1"
  by (induction xs) auto

text \<open>
  Claim C2, amended. In every state that the server can reach, for a client in the set
  of account \<open>A\<close> whose \<^verbatim>\<open>websiteUrl\<close> is a non-empty string, a valid notification
  request for \<open>A\<close> is answered 200 and makes one call of \<^verbatim>\<open>send\<close> with the notification
  on that client when its transport is open and its \<^verbatim>\<open>websiteUrl\<close> is among the
  \<^verbatim>\<open>websites\<close> of the request, and no call otherwise.
\<close>

theorem notify_delivers_iff:
  assumes "NotificationPayloadSchema_parse body = Inr (NotificationPayload A websites n)"
    and "c \<in> set (members A (run es))"
    and "websiteUrl (heap (run es) c) = Some origin"
    and "origin \<noteq> []"
  shows "fst (handleNotification body (run es)) = Response 200 (SuccessBody ''Notification sent'') \<and>
         sent (heap (snd (handleNotification body (run es))) c) =
           sent (heap (run es) c) @
           (if readyState (heap (run es) c) = Some OPEN \<and> origin \<in> set websites
            then [NotificationFrame n] else [])"
proof (cases body "run es" rule: handleNotification_cases)
  case (invalid e)
  with assms show ?thesis by simp
next
  case (absent d websites' n')
  with assms show ?thesis by (simp add: members_def)
next
  case (found d websites' n')
  with assms have [simp]: "d = A" "websites' = websites" "n' = n" by simp_all
  have "distinct (members A (run es))"
    by (rule proper_members) (rule proper_run)
  with assms(2) have "count_list (members A (run es)) c = 1"
    by (simp add: count_list_distinct)
  with found assms(3,4) show ?thesis
    by (simp add: heap_notifyClients deliverable_def)
qed

theorem notify_delivers_iff_witness:
  "NotificationPayloadSchema_parse (notify_json ''acct1'' [''https://a.com'']) =
     Inr (NotificationPayload ''acct1'' [''https://a.com''] hello) \<and>
   0 \<in> set (members ''acct1'' (run open_events)) \<and>
   websiteUrl (heap (run open_events) 0) = Some ''https://a.com'' \<and>
   ''https://a.com'' \<noteq> [] \<and>
   sent (heap (snd (handleNotification (notify_json ''acct1'' [''https://a.com'']) (run open_events))) 0) =
     [SubscribedFrame ''Subscribed to notifications for https://a.com'', NotificationFrame hello]"
proof -
  have st: "0 \<in> set (members ''acct1'' (run open_events))"
      "websiteUrl (heap (run open_events) 0) = Some ''https://a.com''"
      "readyState (heap (run open_events) 0) = Some OPEN"
      "sent (heap (run open_events) 0) = [SubscribedFrame ''Subscribed to notifications for https://a.com'']"
    by (simp_all add: open_events_def eval_defs)
  have ne: "''https://a.com'' \<noteq> []" by simp
  show ?thesis
    using notify_delivers_iff [OF parse_notify_json st(1) st(2) ne] st
    by simp
qed

text \<open>
  The claim as it stands fails for the empty origin: line 177 tests \<^verbatim>\<open>client.websiteUrl\<close>
  for truthiness, so an open socket subscribed with \<^verbatim>\<open>websiteUrl: ""\<close> gets nothing
  from a request whose \<^verbatim>\<open>websites\<close> contain \<^verbatim>\<open>""\<close>.
\<close>

theorem empty_origin_not_delivered:
  "0 \<in> set (members ''acct1'' empty_origin) \<and>
   websiteUrl (heap empty_origin 0) = Some '''' \<and>
   readyState (heap empty_origin 0) = Some OPEN \<and>
   '''' \<in> set [''''] \<and>
   fst (handleNotification (notify_json ''acct1'' ['''']) empty_origin) =
     Response 200 (SuccessBody ''Notification sent'') \<and>
   sent (heap (snd (handleNotification (notify_json ''acct1'' ['''']) empty_origin)) 0) =
     sent (heap empty_origin 0)"
proof -
  have st: "userChannels empty_origin = [(''acct1'', [0])]"
      "websiteUrl (heap empty_origin 0) = Some ''''"
      "readyState (heap empty_origin 0) = Some OPEN"
    by (simp_all add: empty_origin_def eval_defs)
  then show ?thesis
    by (simp add: handleNotification_def members_def deliverable_def)
qed

subsection \<open>The placeholder of the set route stays as it is\<close>

lemma parse_set_json [simp]:
  "SetApiKeySchema_parse (set_json d w) = Inr (SetApiKeyMessage d w)"
  by (simp add: SetApiKeySchema_parse_def set_json_def)

lemma in_Set_add [simp]: "set (Set_add x xs) = insert x (set xs)"
  by (auto simp: Set_add_def)

lemma reserved_cleanupClient: "reserved p d s \<Longrightarrow> reserved p d (cleanupClient c s)"
  by (auto simp: reserved_def heap_cleanupClient members_cleanupClient truthy_bool_def
      instanceof_WebSocket_def)

lemma reserved_cleanup: "reserved p d s \<Longrightarrow> reserved p d (cleanup s)"
  by (rule cleanup_invariant [where P = "reserved p d"]) (rule reserved_cleanupClient)

lemma reserved_removeConnection:
  "reserved p d s \<Longrightarrow> c \<noteq> p \<Longrightarrow> reserved p d (removeConnection c s)"
  by (auto simp: reserved_def members_removeConnection)

lemma reserved_handleSubscription:
  "reserved p d s \<Longrightarrow> c \<noteq> p \<Longrightarrow> reserved p d (handleSubscription c m s)"
  by (cases m) (auto simp: reserved_def members_handleSubscription heap_handleSubscription)

lemma reserved_modify:
  "reserved p d s \<Longrightarrow> c \<noteq> p \<Longrightarrow> reserved p d (modify c f s)"
  by (auto simp: reserved_def)

lemma reserved_not_deliverable: "reserved p d s \<Longrightarrow> \<not> deliverable ws (heap s p)"
  by (simp add: reserved_def deliverable_def)

lemma reserved_not_connected: "reserved p d s \<Longrightarrow> \<not> connected s p"
  by (simp add: reserved_def connected_def)

lemma reserved_notifyClients:
  "reserved p d s \<Longrightarrow> reserved p d (notifyClients ws n cs s)"
  by (frule reserved_not_deliverable [where ws = ws])
     (simp add: reserved_def heap_notifyClients)

lemma reserved_handleNotification:
  "reserved p d s \<Longrightarrow> reserved p d (snd (handleNotification body s))"
  by (cases body s rule: handleNotification_cases) (simp_all add: reserved_notifyClients)

lemma reserved_setApiKey:
  "reserved p d s \<Longrightarrow> reserved p d (snd (setApiKey hdr body s))"
proof (cases hdr body s rule: setApiKey_cases)
  case rejected
  assume "reserved p d s"
  with rejected show ?thesis by simp
next
  case (accepted k d' w)
  assume "reserved p d s"
  then show ?thesis
    by (auto simp: setApiKey_accepted [OF accepted] reserved_def)
qed

lemma reserved_step: "reserved p d s \<Longrightarrow> reserved p d (step e s)"
proof (cases e)
  case Connection
  assume "reserved p d s"
  then show ?thesis
    by (auto simp: Connection reserved_def handleConnection_def)
next
  case (Message c parsed)
  assume r: "reserved p d s"
  show ?thesis
  proof (cases "connected s c")
    case True
    with r have "c \<noteq> p" using reserved_not_connected by blast
    with r True show ?thesis
      by (simp add: Message onMessage_def reserved_modify reserved_handleSubscription
          split: option.splits sum.splits)
  qed (simp add: Message r)
next
  case (Pong c)
  assume r: "reserved p d s"
  show ?thesis
  proof (cases "connected s c")
    case True
    with r have "c \<noteq> p" using reserved_not_connected by blast
    with r True show ?thesis by (simp add: Pong onPong_def reserved_modify)
  qed (simp add: Pong r)
next
  case (Closing c)
  assume r: "reserved p d s"
  then have "readyState (heap s c) = Some OPEN \<Longrightarrow> c \<noteq> p" by (auto simp: reserved_def)
  with r show ?thesis by (simp add: Closing reserved_modify)
next
  case (Close c)
  assume r: "reserved p d s"
  show ?thesis
  proof (cases "connected s c")
    case True
    with r have "c \<noteq> p" using reserved_not_connected by blast
    with r True show ?thesis
      by (simp add: Close onClose_def reserved_modify reserved_removeConnection)
  qed (simp add: Close r)
next
  case (Notify body)
  assume "reserved p d s"
  then show ?thesis by (simp add: Notify reserved_handleNotification)
next
  case (SetKey hdr body)
  assume "reserved p d s"
  then show ?thesis by (simp add: SetKey reserved_setApiKey)
next
  case Cleanup
  assume "reserved p d s"
  then show ?thesis by (simp add: Cleanup reserved_cleanup)
qed

lemma reserved_fold: "reserved p d s \<Longrightarrow> reserved p d (fold step es s)"
  by (induction es arbitrary: s) (simp_all add: reserved_step)

lemma setApiKey_reserves:
  assumes "hdr = Some k" and "k \<noteq> []" and "SetApiKeySchema_parse body = Inr (SetApiKeyMessage d w)"
  shows "reserved (fresh s) d (snd (setApiKey hdr body s))"
  by (simp add: setApiKey_accepted [OF assms] reserved_def blank_def)

lemma member_present: "c \<in> set (members d s) \<Longrightarrow> map_of (userChannels s) d \<noteq> None"
  by (cases "map_of (userChannels s) d") (simp_all add: members_def)

lemma run_append: "run (es @ e # es') = fold step es' (step e (run es))"
  by (simp add: run_def)

lemma reserved_run:
  assumes "hdr = Some k" and "k \<noteq> []" and "SetApiKeySchema_parse body = Inr (SetApiKeyMessage d w)"
  shows "reserved (fresh (run es)) d (run (es @ SetKey hdr body # es'))"
  by (simp add: run_append reserved_fold setApiKey_reserves [OF assms])

text \<open>
  Claim C9. When \<^verbatim>\<open>setApiKey\<close> accepts a request for account \<open>d\<close>, the object it makes
  is in the set of \<open>d\<close>, and after any further events the condition of line 175 to 179
  is false for it whatever the \<^verbatim>\<open>websites\<close>, no call of \<^verbatim>\<open>send\<close> has been made on it,
  and a further notification request makes none.
\<close>

theorem placeholder_never_pushed:
  assumes "hdr = Some k" and "k \<noteq> []" and "SetApiKeySchema_parse body = Inr (SetApiKeyMessage d w)"
  shows "fresh (run es) \<in> set (members d (snd (setApiKey hdr body (run es)))) \<and>
         \<not> deliverable websites (heap (run (es @ SetKey hdr body # es')) (fresh (run es))) \<and>
         sent (heap (run (es @ SetKey hdr body # es')) (fresh (run es))) = [] \<and>
         sent (heap (snd (handleNotification nbody (run (es @ SetKey hdr body # es'))))
                 (fresh (run es))) = []"
proof -
  have "reserved (fresh (run es)) d (run (es @ SetKey hdr body # es'))"
    by (rule reserved_run [OF assms])
  moreover from this
  have "reserved (fresh (run es)) d (snd (handleNotification nbody (run (es @ SetKey hdr body # es'))))"
    by (rule reserved_handleNotification)
  moreover have "reserved (fresh (run es)) d (snd (setApiKey hdr body (run es)))"
    by (rule setApiKey_reserves [OF assms])
  ultimately show ?thesis
    by (simp add: reserved_def deliverable_def)
qed

text \<open>
  Claim C10. When \<^verbatim>\<open>setApiKey\<close> accepts a request for account \<open>d\<close>, then after any
  further events, sweeps included, the object it made is still in the set of \<open>d\<close> with
  \<^verbatim>\<open>isAlive\<close> true and was never pinged, so \<open>d\<close> still has its entry in \<^verbatim>\<open>userChannels\<close> and a valid
  notification request for \<open>d\<close> is answered 200.
\<close>

theorem placeholder_never_evicted:
  assumes "hdr = Some k" and "k \<noteq> []" and "SetApiKeySchema_parse body = Inr (SetApiKeyMessage d w)"
  shows "fresh (run es) \<in> set (members d (run (es @ SetKey hdr body # es'))) \<and>
         isAlive (heap (run (es @ SetKey hdr body # es')) (fresh (run es))) = Some True \<and>
         pings (heap (run (es @ SetKey hdr body # es')) (fresh (run es))) = 0 \<and>
         map_of (userChannels (run (es @ SetKey hdr body # es'))) d \<noteq> None \<and>
         (NotificationPayloadSchema_parse nbody = Inr (NotificationPayload d websites n) \<longrightarrow>
            fst (handleNotification nbody (run (es @ SetKey hdr body # es'))) =
              Response 200 (SuccessBody ''Notification sent''))"
proof -
  have r: "reserved (fresh (run es)) d (run (es @ SetKey hdr body # es'))"
    by (rule reserved_run [OF assms])
  then have present: "map_of (userChannels (run (es @ SetKey hdr body # es'))) d \<noteq> None"
    by (intro member_present [where c = "fresh (run es)"]) (simp add: reserved_def)
  have "fst (handleNotification nbody (run (es @ SetKey hdr body # es'))) =
          Response 200 (SuccessBody ''Notification sent'')"
    if "NotificationPayloadSchema_parse nbody = Inr (NotificationPayload d websites n)"
    using that present
    by (cases nbody "run (es @ SetKey hdr body # es')" rule: handleNotification_cases) simp_all
  with r present show ?thesis
    by (simp add: reserved_def)
qed


theorem placeholder_never_pushed_witness:
  "Some ''k1'' = Some ''k1'' \<and> ''k1'' \<noteq> [] \<and>
   SetApiKeySchema_parse (set_json ''acct1'' ''https://a.com'') =
     Inr (SetApiKeyMessage ''acct1'' ''https://a.com'') \<and>
   fresh (run []) = 0 \<and>
   0 \<in> set (members ''acct1'' (snd (setApiKey (Some ''k1'') (set_json ''acct1'' ''https://a.com'') (run [])))) \<and>
   sent (heap (snd (handleNotification (notify_json ''acct1'' [''https://a.com''])
            (run ([] @ SetKey (Some ''k1'') (set_json ''acct1'' ''https://a.com'') #
                  [Notify (notify_json ''acct1'' [''https://a.com''])])))) 0) = []"
proof -
  have k: "''k1'' \<noteq> []" by simp
  have f: "fresh (run []) = 0" by (simp add: run_def init_def)
  show ?thesis
    using placeholder_never_pushed [where es = "[]" and websites = "[''https://a.com'']"
        and es' = "[Notify (notify_json ''acct1'' [''https://a.com''])]"
        and nbody = "notify_json ''acct1'' [''https://a.com'']", OF refl k parse_set_json] f
    by simp
qed

theorem placeholder_never_evicted_witness:
  "Some ''k1'' = Some ''k1'' \<and> ''k1'' \<noteq> [] \<and>
   SetApiKeySchema_parse (set_json ''acct1'' ''https://a.com'') =
     Inr (SetApiKeyMessage ''acct1'' ''https://a.com'') \<and>
   NotificationPayloadSchema_parse (notify_json ''acct1'' [''https://a.com'']) =
     Inr (NotificationPayload ''acct1'' [''https://a.com''] hello) \<and>
   fresh (run []) = 0 \<and>
   0 \<in> set (members ''acct1''
          (run ([] @ SetKey (Some ''k1'') (set_json ''acct1'' ''https://a.com'') # [Cleanup, Cleanup]))) \<and>
   fst (handleNotification (notify_json ''acct1'' [''https://a.com''])
          (run ([] @ SetKey (Some ''k1'') (set_json ''acct1'' ''https://a.com'') # [Cleanup, Cleanup]))) =
     Response 200 (SuccessBody ''Notification sent'')"
proof -
  have k: "''k1'' \<noteq> []" by simp
  have f: "fresh (run []) = 0" by (simp add: run_def init_def)
  show ?thesis
    using placeholder_never_evicted [where es = "[]" and es' = "[Cleanup, Cleanup]"
        and nbody = "notify_json ''acct1'' [''https://a.com'']"
        and websites = "[''https://a.com'']" and n = hello, OF refl k parse_set_json] f
    by simp
qed

subsection \<open>An account whose connections are all removed\<close>

lemma tagged_channel_absent: "map_of (userChannels s) A = None \<Longrightarrow> tagged_channel A s"
  by (simp add: tagged_channel_def members_def)

lemma tagged_channel_handleSubscription:
  "tagged_channel A s \<Longrightarrow> tagged_channel A (handleSubscription c (SubscriptionMessage A w) s)"
  by (auto simp: tagged_channel_def members_handleSubscription heap_handleSubscription
      userChannels_handleSubscription AList.update_conv')

lemma subscribeAll_members:
  "tagged_channel A s \<Longrightarrow>
   tagged_channel A (subscribeAll A subs s) \<and>
   set (members A (subscribeAll A subs s)) = set (members A s) \<union> fst ` set subs"
proof (induction subs arbitrary: s)
  case Nil
  then show ?case by simp
next
  case (Cons x subs)
  obtain c w where x: "x = (c, w)" by (cases x)
  from Cons.prems have "tagged_channel A (handleSubscription c (SubscriptionMessage A w) s)"
    by (rule tagged_channel_handleSubscription)
  from Cons.IH [OF this] show ?case
    by (auto simp: x members_handleSubscription)
qed

lemma tagged_channel_removeConnection:
  assumes "tagged_channel A s"
  shows "tagged_channel A (removeConnection c s)"
proof -
  have "map_of (userChannels (removeConnection c s)) A \<noteq> Some []"
    using assms
    by (auto simp: tagged_channel_def userChannels_removeConnection AList.update_conv'
        AList.delete_conv' split: option.splits if_splits)
  with assms show ?thesis
    by (auto simp: tagged_channel_def members_removeConnection)
qed

lemma members_removeConnection_subset:
  assumes "tagged_channel A s" and "A \<noteq> []" and "set (members A s) \<subseteq> insert c S"
  shows "set (members A (removeConnection c s)) \<subseteq> S"
proof (cases "droplertId (heap s c) = Some A")
  case True
  with assms show ?thesis by (auto simp: members_removeConnection)
next
  case False
  with assms(1) have "c \<notin> set (members A s)" by (auto simp: tagged_channel_def)
  with assms(3) False show ?thesis by (auto simp: members_removeConnection)
qed

lemma unregisterAll_absent:
  "tagged_channel A s \<Longrightarrow> A \<noteq> [] \<Longrightarrow> set (members A s) \<subseteq> set ds \<Longrightarrow>
   map_of (userChannels (unregisterAll ds s)) A = None"
proof (induction ds arbitrary: s)
  case Nil
  then show ?case
    by (cases "map_of (userChannels s) A") (simp_all add: tagged_channel_def members_def)
next
  case (Cons c ds)
  have "set (members A (removeConnection c s)) \<subseteq> set ds"
    using Cons.prems by (intro members_removeConnection_subset) simp_all
  with Cons.prems show ?case
    by (simp add: Cons.IH tagged_channel_removeConnection)
qed

text \<open>
  Claim C5, amended. For an account \<open>A\<close> other than the empty string that has no entry
  in \<^verbatim>\<open>userChannels\<close>: after \<^verbatim>\<open>handleSubscription\<close> has registered any number of
  connections under \<open>A\<close> and \<^verbatim>\<open>removeConnection\<close> has been called on each of them, in any
  order, \<open>A\<close> has no entry again.
\<close>

theorem unregister_all_removes_account:
  assumes "A \<noteq> []" and "map_of (userChannels s) A = None" and "fst ` set subs \<subseteq> set ds"
  shows "map_of (userChannels (unregisterAll ds (subscribeAll A subs s))) A = None"
proof -
  have "tagged_channel A s" and "members A s = []"
    using assms(2) by (simp_all add: tagged_channel_absent members_absent)
  with subscribeAll_members [of A s subs]
  have "tagged_channel A (subscribeAll A subs s)"
    and "set (members A (subscribeAll A subs s)) \<subseteq> set ds"
    using assms(3) by simp_all
  then show ?thesis
    using assms(1) by (intro unregisterAll_absent)
qed

theorem unregister_all_removes_account_witness:
  "''acct1'' \<noteq> [] \<and> map_of (userChannels (run [Connection, Connection])) ''acct1'' = None \<and>
   fst ` set [(0, ''https://a.com''), (1, ''https://b.com'')] \<subseteq> set [1, 0] \<and>
   members ''acct1'' (subscribeAll ''acct1'' [(0, ''https://a.com''), (1, ''https://b.com'')]
       (run [Connection, Connection])) = [0, 1] \<and>
   map_of (userChannels (unregisterAll [1, 0]
     (subscribeAll ''acct1'' [(0, ''https://a.com''), (1, ''https://b.com'')]
       (run [Connection, Connection])))) ''acct1'' = None"
proof -
  have a: "''acct1'' \<noteq> []" by simp
  have b: "map_of (userChannels (run [Connection, Connection])) ''acct1'' = None"
    by (simp add: run_def init_def handleConnection_def)
  have c: "fst ` set [(0::nat, ''https://a.com''), (1, ''https://b.com'')] \<subseteq> set [1, 0]"
    by simp
  have d: "members ''acct1'' (subscribeAll ''acct1'' [(0, ''https://a.com''), (1, ''https://b.com'')]
       (run [Connection, Connection])) = [0, 1]"
    using b by (simp add: members_handleSubscription members_absent Set_add_def)
  show ?thesis
    using unregister_all_removes_account [OF a b c] a b c d by simp
qed

text \<open>
  The claim as it stands fails for the empty account id: line 246 tests
  \<^verbatim>\<open>ws.droplertId\<close> for truthiness, so a connection registered under \<^verbatim>\<open>""\<close> is not
  removed and the entry stays.
\<close>

theorem empty_account_is_kept:
  "map_of (userChannels (run [Connection])) [] = None \<and>
   map_of (userChannels (unregisterAll [0]
     (subscribeAll [] [(0, ''https://a.com'')] (run [Connection])))) [] = Some [0]"
  by (simp add: eval_defs removeConnection_def)

subsection \<open>The sweep and a registered connection\<close>

lemma count_list_removeAll:
  "count_list (removeAll y xs) x = (if x = y then 0 else count_list xs x)"
  by (induction xs) auto

lemma count_list_member: "count_list xs x = 1 \<Longrightarrow> x \<in> set xs"
  by (metis count_list_0_iff zero_neq_one)

lemma registered_held: "registered c A s \<Longrightarrow> held c A s \<and> connected s c"
proof -
  assume r: "registered c A s"
  have "c \<notin> set (members d s)" if "d \<noteq> A" for d
  proof (cases "d \<in> set (map fst (userChannels s))")
    case True
    with r that show ?thesis unfolding registered_def by blast
  next
    case False
    then have "members d s = []" using members_present by blast
    then show ?thesis by simp
  qed
  with r show ?thesis by (simp add: registered_def held_def connected_def)
qed

lemma held_member: "held c A s \<Longrightarrow> c \<in> set (members A s)"
  by (simp add: held_def count_list_member)

lemma held_key: "held c A s \<Longrightarrow> A \<in> set (map fst (userChannels s))"
proof (rule members_present)
  assume "held c A s"
  then have "c \<in> set (members A s)" by (rule held_member)
  then show "members A s \<noteq> []" by auto
qed

text \<open>The sweep on the other clients leaves \<open>c\<close> as it is.\<close>

lemma held_cleanupClient_other:
  "held c A s \<and> heap s c = v \<Longrightarrow> c' \<noteq> c \<Longrightarrow>
   held c A (cleanupClient c' s) \<and> heap (cleanupClient c' s) c = v"
  by (auto simp: held_def heap_cleanupClient members_cleanupClient count_list_removeAll)

lemma gone_cleanupClient: "gone c s \<Longrightarrow> gone c (cleanupClient c' s)"
  by (simp add: gone_def members_cleanupClient)

lemma cleanupClients_others:
  assumes "\<And>c' s. c' \<noteq> c \<Longrightarrow> P s \<Longrightarrow> P (cleanupClient c' s)"
  shows "c \<notin> set cs \<Longrightarrow> P s \<Longrightarrow> P (cleanupClients d cs s)"
  by (induction cs arbitrary: s) (auto simp: assms)

lemma held_cleanupClients_elsewhere:
  assumes "held c A s \<and> heap s c = v" and "d \<noteq> A"
  shows "held c A (cleanupClients d cs s) \<and> heap (cleanupClients d cs s) c = v"
proof (rule cleanupClients_invariant [where P = "\<lambda>s. held c A s \<and> heap s c = v"])
  fix c' s
  assume h: "held c A s \<and> heap s c = v" and m: "c' \<in> set (members d s)"
  with \<open>d \<noteq> A\<close> have "c' \<noteq> c" by (auto simp: held_def)
  with h show "held c A (cleanupClient c' s) \<and> heap (cleanupClient c' s) c = v"
    by (rule held_cleanupClient_other)
qed (rule assms(1))

lemma held_cleanupChannels_elsewhere:
  "held c A s \<and> heap s c = v \<Longrightarrow> A \<notin> set ds \<Longrightarrow>
   held c A (cleanupChannels ds s) \<and> heap (cleanupChannels ds s) c = v"
proof (induction ds arbitrary: s)
  case Nil
  then show ?case by simp
next
  case (Cons d ds)
  then have "d \<noteq> A" by auto
  with Cons.prems(1)
  have "held c A (cleanupClients d (members d s) s) \<and> heap (cleanupClients d (members d s) s) c = v"
    by (rule held_cleanupClients_elsewhere)
  then show ?case
    using Cons.prems(2) by (simp add: cleanupChannels_step Cons.IH)
qed

text \<open>A client with the flag set is probed once and stays.\<close>

lemma held_cleanupClient_alive:
  assumes "held c A s" and "truthy_bool (isAlive (heap s c))" and "instanceof_WebSocket (heap s c)"
  shows "held c A (cleanupClient c s) \<and>
         heap (cleanupClient c s) c =
           (heap s c)\<lparr>isAlive := Some False, pings := Suc (pings (heap s c))\<rparr>"
  using assms by (simp add: held_def heap_cleanupClient members_cleanupClient)

lemma held_cleanupClients_alive:
  assumes v: "truthy_bool (isAlive v)" "instanceof_WebSocket v"
  shows "held c A s \<and> heap s c = v \<Longrightarrow> count_list cs c = 1 \<Longrightarrow>
         held c A (cleanupClients A cs s) \<and>
         heap (cleanupClients A cs s) c = v\<lparr>isAlive := Some False, pings := Suc (pings v)\<rparr>"
proof (induction cs arbitrary: s)
  case Nil
  then show ?case by simp
next
  case (Cons c' cs)
  show ?case
  proof (cases "c' = c")
    case True
    with Cons.prems have rest: "c \<notin> set cs" by (simp add: count_list_0_iff)
    from Cons.prems have m: "c \<in> set (members A s)" by (simp add: held_member)
    have "held c A (cleanupClient c s) \<and>
          heap (cleanupClient c s) c = v\<lparr>isAlive := Some False, pings := Suc (pings v)\<rparr>"
      using held_cleanupClient_alive [of c A s] Cons.prems(1) v by auto
    with rest have "held c A (cleanupClients A cs (cleanupClient c s)) \<and>
          heap (cleanupClients A cs (cleanupClient c s)) c =
            v\<lparr>isAlive := Some False, pings := Suc (pings v)\<rparr>"
      by (rule cleanupClients_others [where c = c, rotated]) (rule held_cleanupClient_other)
    with True m show ?thesis by simp
  next
    case False
    with Cons.prems have count: "count_list cs c = 1" by simp
    have "held c A (cleanupClient c' s) \<and> heap (cleanupClient c' s) c = v"
      using Cons.prems(1) False by (rule held_cleanupClient_other)
    with Cons.prems(1) count show ?thesis
      by (simp add: Cons.IH)
  qed
qed

lemma held_cleanupChannels_alive:
  assumes v: "truthy_bool (isAlive v)" "instanceof_WebSocket v"
  shows "held c A s \<and> heap s c = v \<Longrightarrow> distinct ds \<Longrightarrow> A \<in> set ds \<Longrightarrow>
         held c A (cleanupChannels ds s) \<and>
         heap (cleanupChannels ds s) c = v\<lparr>isAlive := Some False, pings := Suc (pings v)\<rparr>"
proof (induction ds arbitrary: s)
  case Nil
  then show ?case by simp
next
  case (Cons d ds)
  show ?case
  proof (cases "d = A")
    case True
    from Cons.prems(1) have "count_list (members A s) c = 1" by (simp add: held_def)
    with Cons.prems(1)
    have "held c A (cleanupClients A (members A s) s) \<and>
          heap (cleanupClients A (members A s) s) c =
            v\<lparr>isAlive := Some False, pings := Suc (pings v)\<rparr>"
      by (rule held_cleanupClients_alive [OF v])
    moreover from True Cons.prems(2) have "A \<notin> set ds" by simp
    ultimately have "held c A (cleanupChannels ds (cleanupClients A (members A s) s)) \<and>
          heap (cleanupChannels ds (cleanupClients A (members A s) s)) c =
            v\<lparr>isAlive := Some False, pings := Suc (pings v)\<rparr>"
      by (rule held_cleanupChannels_elsewhere)
    with True show ?thesis by (simp add: cleanupChannels_step)
  next
    case False
    with Cons.prems(1)
    have "held c A (cleanupClients d (members d s) s) \<and>
          heap (cleanupClients d (members d s) s) c = v"
      by (intro held_cleanupClients_elsewhere) simp_all
    with Cons.prems False show ?thesis
      by (simp add: cleanupChannels_step Cons.IH)
  qed
qed

lemma held_cleanup_alive:
  assumes "held c A s" and "truthy_bool (isAlive (heap s c))" and "instanceof_WebSocket (heap s c)"
    and "proper (userChannels s)"
  shows "held c A (cleanup s) \<and>
         heap (cleanup s) c = (heap s c)\<lparr>isAlive := Some False, pings := Suc (pings (heap s c))\<rparr>"
proof -
  from assms(4) have "distinct (map fst (userChannels s))" by (simp add: proper_def)
  moreover from assms(1) have "A \<in> set (map fst (userChannels s))" by (rule held_key)
  moreover from assms(1) have "held c A s \<and> heap s c = heap s c" by simp
  ultimately show ?thesis
    unfolding cleanup_def by (intro held_cleanupChannels_alive assms(2,3))
qed

text \<open>A client with the flag cleared is removed.\<close>

lemma gone_cleanupClient_dead:
  assumes "held c A s" and "\<not> truthy_bool (isAlive (heap s c))"
  shows "gone c (cleanupClient c s)"
  using assms by (auto simp: held_def gone_def members_cleanupClient)

lemma gone_cleanupClients_dead:
  assumes v: "\<not> truthy_bool (isAlive v)"
  shows "held c A s \<and> heap s c = v \<Longrightarrow> c \<in> set cs \<Longrightarrow> gone c (cleanupClients A cs s)"
proof (induction cs arbitrary: s)
  case Nil
  then show ?case by simp
next
  case (Cons c' cs)
  show ?case
  proof (cases "c' = c")
    case True
    from Cons.prems have m: "c \<in> set (members A s)" by (simp add: held_member)
    have "gone c (cleanupClient c s)"
      using Cons.prems(1) v by (intro gone_cleanupClient_dead [where A = A]) auto
    then have "gone c (cleanupClients A cs (cleanupClient c s))"
      by (rule cleanupClients_invariant [where P = "gone c", rotated])
         (rule gone_cleanupClient)
    with True m show ?thesis by simp
  next
    case False
    with Cons.prems have "c \<in> set cs" by simp
    moreover have "held c A (cleanupClient c' s) \<and> heap (cleanupClient c' s) c = v"
      using Cons.prems(1) False by (rule held_cleanupClient_other)
    ultimately show ?thesis
      using Cons.prems(1) by (simp add: Cons.IH)
  qed
qed

lemma gone_cleanupChannels: "gone c s \<Longrightarrow> gone c (cleanupChannels ds s)"
  by (rule cleanupChannels_invariant [where P = "gone c"]) (simp_all add: gone_cleanupClient)

lemma gone_cleanup: "gone c s \<Longrightarrow> gone c (cleanup s)"
  by (simp add: cleanup_def gone_cleanupChannels)

lemma gone_cleanupChannels_dead:
  assumes v: "\<not> truthy_bool (isAlive v)"
  shows "held c A s \<and> heap s c = v \<Longrightarrow> A \<in> set ds \<Longrightarrow> gone c (cleanupChannels ds s)"
proof (induction ds arbitrary: s)
  case Nil
  then show ?case by simp
next
  case (Cons d ds)
  show ?case
  proof (cases "d = A")
    case True
    from Cons.prems(1) have "c \<in> set (members A s)" by (simp add: held_member)
    with Cons.prems(1) have "gone c (cleanupClients A (members A s) s)"
      by (rule gone_cleanupClients_dead [OF v])
    with True show ?thesis
      by (simp add: cleanupChannels_step gone_cleanupChannels)
  next
    case False
    with Cons.prems(1)
    have "held c A (cleanupClients d (members d s) s) \<and>
          heap (cleanupClients d (members d s) s) c = v"
      by (intro held_cleanupClients_elsewhere) simp_all
    with Cons.prems False show ?thesis
      by (simp add: cleanupChannels_step Cons.IH)
  qed
qed

lemma gone_cleanup_dead:
  assumes "held c A s" and "\<not> truthy_bool (isAlive (heap s c))"
  shows "gone c (cleanup s)"
proof -
  from assms(1) have k: "A \<in> set (map fst (userChannels s))" by (rule held_key)
  from assms(1) have h: "held c A s \<and> heap s c = heap s c" by simp
  show ?thesis
    unfolding cleanup_def by (rule gone_cleanupChannels_dead [OF assms(2) h k])
qed

subsection \<open>Counting a connection in the channels\<close>

lemma held_count:
  "held c A s \<longleftrightarrow>
     A \<noteq> [] \<and> c < fresh s \<and> droplertId (heap s c) = Some A \<and>
     (\<forall>d. count_list (members d s) c = (if d = A then 1 else 0))"
  by (auto simp: held_def count_list_0_iff)

lemma gone_count: "gone c s \<longleftrightarrow> (\<forall>d. count_list (members d s) c = 0)"
  by (simp add: gone_def count_list_0_iff)

lemma count_list_Set_add:
  "count_list (Set_add x xs) c =
     (if c = x then (if x \<in> set xs then count_list xs c else 1) else count_list xs c)"
  by (simp add: Set_add_def count_list_0_iff)

subsection \<open>What the routes leave alone\<close>

lemma handleNotification_frame:
  "members d (snd (handleNotification body s)) = members d s"
  "fresh (snd (handleNotification body s)) = fresh s"
  "isAlive (heap (snd (handleNotification body s)) r) = isAlive (heap s r)"
  "droplertId (heap (snd (handleNotification body s)) r) = droplertId (heap s r)"
  "readyState (heap (snd (handleNotification body s)) r) = readyState (heap s r)"
  by (cases body s rule: handleNotification_cases; simp add: heap_notifyClients)+

lemma setApiKey_frame:
  "r < fresh s \<Longrightarrow> heap (snd (setApiKey hdr body s)) r = heap s r"
  "fresh s \<le> fresh (snd (setApiKey hdr body s))"
  "c < fresh s \<Longrightarrow>
     count_list (members d (snd (setApiKey hdr body s))) c = count_list (members d s) c"
  by (cases hdr body s rule: setApiKey_cases;
      simp add: setApiKey_accepted count_list_Set_add)+

lemma fresh_cleanup [simp]: "fresh (cleanup s) = fresh s"
  by (rule cleanup_invariant [where P = "\<lambda>t. fresh t = fresh s"]) simp_all

lemma readyState_cleanup [simp]: "readyState (heap (cleanup s) r) = readyState (heap s r)"
  by (rule cleanup_invariant [where P = "\<lambda>t. readyState (heap t r) = readyState (heap s r)"])
     (auto simp: heap_cleanupClient)

lemma dead_cleanup:
  "\<not> truthy_bool (isAlive (heap s r)) \<Longrightarrow> \<not> truthy_bool (isAlive (heap (cleanup s) r))"
  by (rule cleanup_invariant [where P = "\<lambda>t. \<not> truthy_bool (isAlive (heap t r))"])
     (simp_all add: heap_cleanupClient truthy_bool_def)

subsection \<open>One event and a registered connection\<close>

lemma fresh_step: "fresh s \<le> fresh (step e s)"
  by (cases e)
     (simp_all add: handleConnection_def onMessage_def onPong_def onClose_def
        handleNotification_frame setApiKey_frame split: option.splits sum.splits)

lemma connected_step: "connected s c \<Longrightarrow> e \<noteq> Close c \<Longrightarrow> connected (step e s) c"
proof (cases e)
  case (SetKey hdr body)
  assume "connected s c"
  then show ?thesis
    using setApiKey_frame(1) [of c s hdr body] setApiKey_frame(2) [of s hdr body]
    by (auto simp: SetKey connected_def)
next
  case (Message c' parsed)
  assume "connected s c"
  then show ?thesis
    by (cases "SubscriptionMessageSchema_parse (the parsed)";
        cases "projr (SubscriptionMessageSchema_parse (the parsed))")
       (auto simp: Message connected_def onMessage_def heap_handleSubscription ws_send_def
          split: option.splits sum.splits)
qed (auto simp: connected_def handleConnection_def onPong_def onClose_def
       handleNotification_frame)

lemma isAlive_step:
  "c < fresh s \<Longrightarrow> e \<noteq> Cleanup \<Longrightarrow>
   isAlive (heap (step e s) c) =
     (if e = Pong c \<and> connected s c then Some True else isAlive (heap s c))"
proof (cases e)
  case (SetKey hdr body)
  assume "c < fresh s"
  then show ?thesis by (simp add: SetKey setApiKey_frame)
next
  case (Message c' parsed)
  assume "c < fresh s"
  then show ?thesis
    by (cases "SubscriptionMessageSchema_parse (the parsed)";
        cases "projr (SubscriptionMessageSchema_parse (the parsed))")
       (auto simp: Message onMessage_def heap_handleSubscription ws_send_def
          split: option.splits sum.splits)
qed (auto simp: handleConnection_def onPong_def onClose_def handleNotification_frame)

lemma same_step:
  assumes "c < fresh s" and "e \<noteq> Cleanup" and "e \<noteq> Close c" and "\<forall>p. e \<noteq> Message c p"
  shows "droplertId (heap (step e s) c) = droplertId (heap s c) \<and>
         (\<forall>d. count_list (members d (step e s)) c = count_list (members d s) c)"
proof (cases e)
  case (SetKey hdr body)
  with assms(1) show ?thesis by (simp add: setApiKey_frame)
next
  case (Message c' parsed)
  with assms(4) have "c' \<noteq> c" by auto
  then show ?thesis
    by (cases "SubscriptionMessageSchema_parse (the parsed)";
        cases "projr (SubscriptionMessageSchema_parse (the parsed))")
       (auto simp: Message onMessage_def heap_handleSubscription members_handleSubscription
          count_list_Set_add split: option.splits sum.splits)
next
  case (Close c')
  with assms(3) have "c' \<noteq> c" by auto
  then show ?thesis
    by (simp add: Close onClose_def members_removeConnection count_list_removeAll)
qed (use assms in \<open>auto simp: handleConnection_def onPong_def handleNotification_frame\<close>)

lemma held_same:
  assumes "held c A s" and "fresh s \<le> fresh s'"
    and "droplertId (heap s' c) = droplertId (heap s c) \<and>
         (\<forall>d. count_list (members d s') c = count_list (members d s) c)"
  shows "held c A s'"
  using assms by (auto simp: held_count)

lemma gone_same:
  assumes "gone c s"
    and "droplertId (heap s' c) = droplertId (heap s c) \<and>
         (\<forall>d. count_list (members d s') c = count_list (members d s) c)"
  shows "gone c s'"
  using assms by (simp add: gone_count)

text \<open>A message of \<open>c\<close> itself that does not take it to another account.\<close>

lemma message_step:
  assumes "\<not> resubscribes A parsed" and "A \<noteq> []" and "c < fresh s"
  shows "(held c A s \<longrightarrow> held c A (step (Message c parsed) s)) \<and>
         (gone c s \<longrightarrow> gone c (step (Message c parsed) s) \<or> held c A (step (Message c parsed) s))"
proof (cases "connected s c")
  case False
  then show ?thesis by simp
next
  case conn: True
  show ?thesis
  proof (cases parsed)
    case None
    with conn show ?thesis
      by (simp add: onMessage_def held_count gone_count ws_send_def)
  next
    case (Some j)
    show ?thesis
    proof (cases "SubscriptionMessageSchema_parse j")
      case (Inl e)
      with conn Some show ?thesis
        by (simp add: onMessage_def held_count gone_count ws_send_def)
    next
      case (Inr m)
      obtain d w where m: "m = SubscriptionMessage d w" by (cases m)
      with assms(1) Some Inr have "d = A" by (simp add: resubscribes_def)
      with conn Some Inr m assms(2,3) show ?thesis
        by (auto simp: onMessage_def held_count gone_count heap_handleSubscription
            members_handleSubscription count_list_Set_add count_list_0_iff)
    qed
  qed
qed

text \<open>The \<^verbatim>\<open>close\<close> event of \<open>c\<close> itself.\<close>

lemma close_step:
  "(held c A s \<or> gone c s) \<longrightarrow> gone c (step (Close c) s) \<or> held c A (step (Close c) s)"
  by (auto simp: onClose_def held_count gone_count members_removeConnection count_list_removeAll)

subsection \<open>Sequences of events and a registered connection\<close>

lemma connected_instanceof: "connected s c \<Longrightarrow> instanceof_WebSocket (heap s c)"
  by (auto simp: connected_def instanceof_WebSocket_def)

lemma held_step:
  assumes "held c A s" and "e \<noteq> Cleanup" and "e \<noteq> Close c"
    and "\<forall>p. e = Message c p \<longrightarrow> \<not> resubscribes A p"
  shows "held c A (step e s)"
proof (cases "\<exists>p. e = Message c p")
  case True
  then obtain p where e: "e = Message c p" by blast
  with assms(4) have "\<not> resubscribes A p" by simp
  with assms(1) show ?thesis
    using message_step [of A p c s] by (simp add: e held_def)
next
  case False
  from assms(1) have "c < fresh s" by (simp add: held_def)
  with assms(2,3) False
  have "droplertId (heap (step e s) c) = droplertId (heap s c) \<and>
        (\<forall>d. count_list (members d (step e s)) c = count_list (members d s) c)"
    by (intro same_step) simp_all
  with assms(1) fresh_step show ?thesis by (rule held_same)
qed

lemma answering_keeps:
  "answering c A a es \<Longrightarrow> held c A s \<Longrightarrow> connected s c \<Longrightarrow> proper (userChannels s) \<Longrightarrow>
   (a \<longrightarrow> truthy_bool (isAlive (heap s c))) \<Longrightarrow> held c A (fold step es s)"
proof (induction es arbitrary: a s)
  case Nil
  then show ?case by simp
next
  case (Cons e es)
  have conn: "connected (step e s) c"
    using Cons.prems(1,3) by (intro connected_step) auto
  have wf: "proper (userChannels (step e s))"
    using Cons.prems(4) by (rule proper_step)
  show ?case
  proof (cases "e = Cleanup")
    case True
    with Cons.prems have alive: "truthy_bool (isAlive (heap s c))" and rest: "answering c A False es"
      by simp_all
    have "held c A (cleanup s)"
      using held_cleanup_alive [OF Cons.prems(2) alive connected_instanceof [OF Cons.prems(3)]
          Cons.prems(4)] by simp
    with True have "held c A (step e s)" by simp
    from Cons.IH [OF rest this conn wf] show ?thesis by simp
  next
    case False
    define a' where "a' = (a \<or> e = Pong c)"
    from Cons.prems(1) False have rest: "answering c A a' es"
      by (cases e) (auto simp: a'_def)
    from Cons.prems(1) have ok: "e \<noteq> Close c" "\<forall>p. e = Message c p \<longrightarrow> \<not> resubscribes A p"
      by auto
    have h: "held c A (step e s)"
      using Cons.prems(2) False ok by (rule held_step)
    from Cons.prems(2) have "c < fresh s" by (simp add: held_def)
    then have "isAlive (heap (step e s) c) =
        (if e = Pong c \<and> connected s c then Some True else isAlive (heap s c))"
      using False by (rule isAlive_step)
    with Cons.prems(3,5) have "a' \<longrightarrow> truthy_bool (isAlive (heap (step e s) c))"
      by (auto simp: a'_def truthy_bool_def)
    from Cons.IH [OF rest h conn wf this] show ?thesis by simp
  qed
qed

lemma silent_evicts:
  "silent c A es \<Longrightarrow> A \<noteq> [] \<Longrightarrow> c < fresh s \<Longrightarrow> \<not> truthy_bool (isAlive (heap s c)) \<Longrightarrow>
   gone c s \<or> held c A s \<Longrightarrow> gone c (cleanup (fold step es s))"
proof (induction es arbitrary: s)
  case Nil
  then show ?case
    using gone_cleanup gone_cleanup_dead by auto
next
  case (Cons e es)
  from Cons.prems(1) have rest: "silent c A es" by (cases e) auto
  from Cons.prems(1) have ok: "e \<noteq> Pong c" "\<forall>p. e = Message c p \<longrightarrow> \<not> resubscribes A p"
    by auto
  have fr: "c < fresh (step e s)"
    using Cons.prems(3) fresh_step [of s e] by simp
  have dead: "\<not> truthy_bool (isAlive (heap (step e s) c))"
  proof (cases "e = Cleanup")
    case True
    with Cons.prems(4) show ?thesis by (simp add: dead_cleanup)
  next
    case False
    with Cons.prems(3,4) ok(1) show ?thesis by (simp add: isAlive_step)
  qed
  have reg: "gone c (step e s) \<or> held c A (step e s)"
  proof (cases "e = Cleanup \<or> e = Close c \<or> (\<exists>p. e = Message c p)")
    case True
    then consider "e = Cleanup" | "e = Close c" | p where "e = Message c p" by blast
    then show ?thesis
    proof cases
      case 1
      with Cons.prems(4,5) show ?thesis
        using gone_cleanup gone_cleanup_dead by auto
    next
      case 2
      with Cons.prems(5) show ?thesis using close_step [of c A s] by blast
    next
      case 3
      with ok(2) have "\<not> resubscribes A p" by simp
      from message_step [OF this Cons.prems(2,3)] 3 Cons.prems(5) show ?thesis by blast
    qed
  next
    case False
    then have "droplertId (heap (step e s) c) = droplertId (heap s c) \<and>
        (\<forall>d. count_list (members d (step e s)) c = count_list (members d s) c)"
      using Cons.prems(3) by (intro same_step) auto
    with Cons.prems(5) fresh_step [of s e] show ?thesis
      using gone_same held_same by blast
  qed
  from Cons.IH [OF rest Cons.prems(2) fr dead reg] show ?case by simp
qed

lemma run_fold: "run (es0 @ es) = fold step es (run es0)"
  by (simp add: run_def)

text \<open>
  Claim C7, amended. Let \<open>c\<close> be a live socket that, in a state the server can reach, is
  tagged with a non-empty account \<open>A\<close> and is in the set of \<open>A\<close> and in no other. If its
  flag is set, a sweep clears the flag, pings it once and leaves it in the set. If from
  then on it acknowledges no probe and subscribes to no other account, it is in no set
  after the next sweep, whatever else happens in between. If it stays open, subscribes to
  no other account and acknowledges the last probe before each sweep, it stays in the
  set of \<open>A\<close>.
\<close>

theorem monitor_two_cycles:
  assumes "registered c A (run es0)"
  shows "(truthy_bool (isAlive (heap (run es0) c)) \<longrightarrow>
            c \<in> set (members A (cleanup (run es0))) \<and>
            isAlive (heap (cleanup (run es0)) c) = Some False \<and>
            pings (heap (cleanup (run es0)) c) = Suc (pings (heap (run es0) c))) \<and>
         (silent c A es1 \<longrightarrow>
            (\<forall>d. c \<notin> set (members d (run (es0 @ Cleanup # es1 @ [Cleanup]))))) \<and>
         (answering c A (truthy_bool (isAlive (heap (run es0) c))) es2 \<longrightarrow>
            c \<in> set (members A (run (es0 @ es2))))"
proof -
  let ?s = "run es0"
  from assms have held: "held c A ?s" and conn: "connected ?s c"
    by (simp_all add: registered_held)
  have wf: "proper (userChannels ?s)" by (rule proper_run)
  from held have A: "A \<noteq> []" and fr: "c < fresh ?s" by (simp_all add: held_def)
  have first: "held c A (cleanup ?s) \<and>
      heap (cleanup ?s) c = (heap ?s c)\<lparr>isAlive := Some False, pings := Suc (pings (heap ?s c))\<rparr>"
    if "truthy_bool (isAlive (heap ?s c))"
    using held that connected_instanceof [OF conn] wf by (rule held_cleanup_alive)
  have one: "c \<in> set (members A (cleanup ?s)) \<and> isAlive (heap (cleanup ?s) c) = Some False \<and>
      pings (heap (cleanup ?s) c) = Suc (pings (heap ?s c))"
    if "truthy_bool (isAlive (heap ?s c))"
    using first [OF that] by (simp add: held_member)
  have two: "\<forall>d. c \<notin> set (members d (run (es0 @ Cleanup # es1 @ [Cleanup])))" if "silent c A es1"
  proof -
    have reg: "gone c (cleanup ?s) \<or> held c A (cleanup ?s)"
      using first gone_cleanup_dead [OF held] by blast
    have dead: "\<not> truthy_bool (isAlive (heap (cleanup ?s) c))"
      using first dead_cleanup [of ?s c] by (cases "truthy_bool (isAlive (heap ?s c))")
        (simp_all add: truthy_bool_def)
    from fr have "c < fresh (cleanup ?s)" by simp
    from silent_evicts [OF that A this dead reg]
    have "gone c (cleanup (fold step es1 (cleanup ?s)))" .
    then show ?thesis
      by (simp add: run_def gone_def)
  qed
  have three: "c \<in> set (members A (run (es0 @ es2)))"
    if "answering c A (truthy_bool (isAlive (heap ?s c))) es2"
    using answering_keeps [OF that held conn wf] by (simp add: run_fold held_member)
  from one two three show ?thesis by blast
qed

lemma registered_open_events: "registered 0 ''acct1'' (run open_events)"
  by (simp add: registered_def open_events_def eval_defs)

theorem monitor_two_cycles_witness:
  "registered 0 ''acct1'' (run open_events) \<and>
   truthy_bool (isAlive (heap (run open_events) 0)) \<and>
   silent 0 ''acct1'' [Closing 1] \<and>
   answering 0 ''acct1'' True [Cleanup, Pong 0, Cleanup] \<and>
   0 \<in> set (members ''acct1'' (cleanup (run open_events))) \<and>
   isAlive (heap (cleanup (run open_events)) 0) = Some False \<and>
   0 \<notin> set (members ''acct1'' (run (open_events @ Cleanup # [Closing 1] @ [Cleanup]))) \<and>
   0 \<in> set (members ''acct1'' (run (open_events @ [Cleanup, Pong 0, Cleanup])))"
proof -
  have alive: "truthy_bool (isAlive (heap (run open_events) 0))"
    by (simp add: open_events_def eval_defs truthy_bool_def)
  have quiet: "silent 0 ''acct1'' [Closing 1]" by simp
  have acks: "answering 0 ''acct1'' True [Cleanup, Pong 0, Cleanup]" by simp
  show ?thesis
    using monitor_two_cycles [OF registered_open_events, of "[Closing 1]" "[Cleanup, Pong 0, Cleanup]"]
      registered_open_events alive quiet acks
    by simp
qed

text \<open>
  The claim as it stands fails twice. A socket that subscribed to \<^verbatim>\<open>acct1\<close> and then to
  \<^verbatim>\<open>acct2\<close> is in both sets, so one sweep visits it twice: the first visit clears the
  flag, the second removes it from \<^verbatim>\<open>acct2\<close>, before it could acknowledge anything. And
  a socket registered under the empty account id, which never acknowledges, is still
  there after two sweeps, since line 246 skips the removal.
\<close>

theorem sweep_evicts_live_socket:
  "members ''acct2'' resubscribed = [0] \<and>
   droplertId (heap resubscribed 0) = Some ''acct2'' \<and>
   readyState (heap resubscribed 0) = Some OPEN \<and>
   isAlive (heap resubscribed 0) = Some True \<and>
   members ''acct2'' (cleanup resubscribed) = [] \<and>
   members [] (run empty_account_events) = [0] \<and>
   members [] (cleanup (cleanup (run empty_account_events))) = [0]"
proof -
  have a: "userChannels resubscribed = [(''acct1'', [0]), (''acct2'', [0])]"
    "heap resubscribed 0 = \<lparr>readyState = Some OPEN, isAlive = Some True,
       droplertId = Some ''acct2'', websiteUrl = Some ''https://a.com'',
       sent = [SubscribedFrame ''Subscribed to notifications for https://a.com'',
               SubscribedFrame ''Subscribed to notifications for https://a.com''],
       pings = 0\<rparr>"
    by (simp_all add: resubscribed_def eval_defs)
  have b: "userChannels (run empty_account_events) = [([], [0])]"
    "droplertId (heap (run empty_account_events) 0) = Some []"
    "isAlive (heap (run empty_account_events) 0) = Some True"
    "readyState (heap (run empty_account_events) 0) = Some OPEN"
    by (simp_all add: empty_account_events_def eval_defs)
  have "members ''acct2'' (cleanup resubscribed) = []"
    using a
    by (simp add: cleanup_def cleanupClient_def members_def truthy_bool_def
        instanceof_WebSocket_def ws_ping_def removeConnection_def Set_delete_def)
  moreover have "members [] (cleanup (cleanup (run empty_account_events))) = [0]"
    using b
    by (simp add: cleanup_def cleanupClient_def members_def truthy_bool_def
        instanceof_WebSocket_def ws_ping_def removeConnection_def Set_delete_def)
  ultimately show ?thesis
    using a b by (simp add: members_def)
qed

end
